(* ===== verification/Inherit.thy ===== *)
theory Inherit
  imports Prelude
begin

text \<open>
  \<open>crates/remoter-core/src/inherit.rs\<close>: three-state fields (\<open>Inherited\<close>), where a resolved
  value came from (\<open>Provenance\<close>) and the pair of both (\<open>Resolved\<close>), with the node identity
  of \<open>node.rs\<close> they mention. The resolver itself is in the theory \<open>Resolve\<close>, which has nodes.
\<close>

section \<open>Node identities\<close>

text \<open>
  A \<open>NodeId\<close> wraps a UUID. The sixteen bytes compare lexicographically, which is the order
  of the 128-bit number they spell in big-endian order.
\<close>

datatype node_id = NodeId (as_uuid: "128 word")

instantiation node_id :: linorder
begin

definition less_eq_node_id :: "node_id \<Rightarrow> node_id \<Rightarrow> bool" where
  "less_eq_node_id a b \<longleftrightarrow> as_uuid a \<le> as_uuid b"

definition less_node_id :: "node_id \<Rightarrow> node_id \<Rightarrow> bool" where
  "less_node_id a b \<longleftrightarrow> as_uuid a < as_uuid b"

instance
proof
  fix x y z :: node_id
  show "x < y \<longleftrightarrow> x \<le> y \<and> \<not> y \<le> x"
    by (auto simp: less_eq_node_id_def less_node_id_def)
  show "x \<le> x"
    by (simp add: less_eq_node_id_def)
  show "x \<le> y \<Longrightarrow> y \<le> z \<Longrightarrow> x \<le> z"
    by (simp add: less_eq_node_id_def)
  show "x \<le> y \<Longrightarrow> y \<le> x \<Longrightarrow> x = y"
    by (simp add: less_eq_node_id_def node_id.expand)
  show "x \<le> y \<or> y \<le> x"
    by (auto simp: less_eq_node_id_def)
qed

end

lemma node_id_order_simps [simp]:
  "NodeId a \<le> NodeId b \<longleftrightarrow> a \<le> b"
  "NodeId a < NodeId b \<longleftrightarrow> a < b"
  by (simp_all add: less_eq_node_id_def less_node_id_def)

section \<open>Inherited fields\<close>

datatype 'a inherited = Inherit | Explicit 'a | Default

definition inherited_default :: "'a inherited" where
  "inherited_default = Inherit"

fun explicit :: "'a inherited \<Rightarrow> 'a option" where
  "explicit (Explicit v) = Some v"
| "explicit Inherit = None"
| "explicit Default = None"

fun is_explicit :: "'a inherited \<Rightarrow> bool" where
  "is_explicit (Explicit v) = True"
| "is_explicit Inherit = False"
| "is_explicit Default = False"

fun is_inherit :: "'a inherited \<Rightarrow> bool" where
  "is_inherit Inherit = True"
| "is_inherit (Explicit v) = False"
| "is_inherit Default = False"

fun inherited_is_default :: "'a inherited \<Rightarrow> bool" where
  "inherited_is_default Default = True"
| "inherited_is_default (Explicit v) = False"
| "inherited_is_default Inherit = False"

fun inherited_map :: "('a \<Rightarrow> 'b) \<Rightarrow> 'a inherited \<Rightarrow> 'b inherited" where
  "inherited_map f Inherit = Inherit"
| "inherited_map f Default = Default"
| "inherited_map f (Explicit v) = Explicit (f v)"

lemma explicit_Some_iff [simp]: "explicit x = Some v \<longleftrightarrow> x = Explicit v"
  by (cases x) auto

lemma is_inherit_iff: "is_inherit x \<longleftrightarrow> x = Inherit"
  by (cases x) auto

section \<open>Provenance\<close>

datatype provenance = Own node_id | Ancestor node_id | DefaultAt node_id | DefaultAtRoot

fun provenance_source :: "provenance \<Rightarrow> node_id option" where
  "provenance_source (Own i) = Some i"
| "provenance_source (Ancestor i) = Some i"
| "provenance_source (DefaultAt i) = Some i"
| "provenance_source DefaultAtRoot = None"

fun provenance_is_inherited :: "provenance \<Rightarrow> bool" where
  "provenance_is_inherited (Ancestor i) = True"
| "provenance_is_inherited _ = False"

fun provenance_is_default :: "provenance \<Rightarrow> bool" where
  "provenance_is_default (DefaultAt i) = True"
| "provenance_is_default DefaultAtRoot = True"
| "provenance_is_default _ = False"

section \<open>Resolved values\<close>

record 'a resolved =
  r_value :: 'a
  r_provenance :: provenance

definition resolved_new :: "'a \<Rightarrow> provenance \<Rightarrow> 'a resolved" where
  "resolved_new v p = \<lparr>r_value = v, r_provenance = p\<rparr>"

definition resolved_own :: "node_id \<Rightarrow> 'a \<Rightarrow> 'a resolved" where
  "resolved_own i v = resolved_new v (Own i)"

definition resolved_from_ancestor :: "node_id \<Rightarrow> 'a \<Rightarrow> 'a resolved" where
  "resolved_from_ancestor i v = resolved_new v (Ancestor i)"

definition resolved_default_at :: "node_id \<Rightarrow> 'a \<Rightarrow> 'a resolved" where
  "resolved_default_at i v = resolved_new v (DefaultAt i)"

definition resolved_default_at_root :: "'a \<Rightarrow> 'a resolved" where
  "resolved_default_at_root v = resolved_new v DefaultAtRoot"

definition resolved_source :: "'a resolved \<Rightarrow> node_id option" where
  "resolved_source r = provenance_source (r_provenance r)"

definition resolved_is_inherited :: "'a resolved \<Rightarrow> bool" where
  "resolved_is_inherited r = provenance_is_inherited (r_provenance r)"

definition resolved_is_default :: "'a resolved \<Rightarrow> bool" where
  "resolved_is_default r = provenance_is_default (r_provenance r)"

definition resolved_map :: "('a \<Rightarrow> 'b) \<Rightarrow> 'a resolved \<Rightarrow> 'b resolved" where
  "resolved_map f r = \<lparr>r_value = f (r_value r), r_provenance = r_provenance r\<rparr>"

definition into_value :: "'a resolved \<Rightarrow> 'a" where
  "into_value r = r_value r"

lemmas resolved_defs =
  resolved_new_def resolved_own_def resolved_from_ancestor_def resolved_default_at_def
  resolved_default_at_root_def

lemma resolved_fields [simp]:
  "r_value (resolved_new v p) = v" "r_provenance (resolved_new v p) = p"
  "r_value (resolved_own i v) = v" "r_provenance (resolved_own i v) = Own i"
  "r_value (resolved_from_ancestor i v) = v"
  "r_provenance (resolved_from_ancestor i v) = Ancestor i"
  "r_value (resolved_default_at i v) = v" "r_provenance (resolved_default_at i v) = DefaultAt i"
  "r_value (resolved_default_at_root v) = v"
  "r_provenance (resolved_default_at_root v) = DefaultAtRoot"
  "r_value (resolved_map f r) = f (r_value r)"
  "r_provenance (resolved_map f r) = r_provenance r"
  by (simp_all add: resolved_defs resolved_map_def)

end
