(* ===== verification/Rust_Std.thy ===== *)
theory Rust_Std
  imports Prelude
begin

text \<open>
  What the modelled code uses of Rust's standard library on text: a \<open>String\<close> as its list of
  Unicode scalar values, its UTF-8 bytes, the character classes of \<open>char\<close> and \<open>u8\<close>, the
  splitting and stripping operations of \<open>str\<close>, and the parsers behind
  \<open>parse::<Ipv4Addr>()\<close> and \<open>parse::<Ipv6Addr>()\<close>.
\<close>

section \<open>Strings\<close>

type_synonym rstring = "nat list"

text \<open>An ASCII literal.\<close>

definition lit :: "string \<Rightarrow> rstring" where
  "lit s = map of_char s"

definition utf8_char :: "nat \<Rightarrow> nat list" where
  "utf8_char c =
     (if c < 0x80 then [c]
      else if c < 0x800 then [0xC0 + c div 0x40, 0x80 + c mod 0x40]
      else if c < 0x10000 then
        [0xE0 + c div 0x1000, 0x80 + c div 0x40 mod 0x40, 0x80 + c mod 0x40]
      else [0xF0 + c div 0x40000, 0x80 + c div 0x1000 mod 0x40,
            0x80 + c div 0x40 mod 0x40, 0x80 + c mod 0x40])"

text \<open>\<open>str::bytes\<close>; \<open>str::len\<close> is the length of this list.\<close>

definition str_bytes :: "rstring \<Rightarrow> nat list" where
  "str_bytes s = concat (map utf8_char s)"

lemma str_bytes_Nil [simp]: "str_bytes [] = []"
  by (simp add: str_bytes_def)

lemma str_bytes_Cons [simp]: "str_bytes (c # s) = utf8_char c @ str_bytes s"
  by (simp add: str_bytes_def)

lemma utf8_char_ascii [simp]: "c < 0x80 \<Longrightarrow> utf8_char c = [c]"
  by (simp add: utf8_char_def)

text \<open>
  A test that only ASCII bytes pass holds of every byte of a string exactly when it holds
  of every character.
\<close>

lemma list_all_utf8_char:
  assumes "\<And>b. P b \<Longrightarrow> b < 0x80"
  shows "list_all P (utf8_char c) \<longleftrightarrow> P c"
proof (cases "c < 0x80")
  case True
  then show ?thesis by simp
next
  case False
  then have "\<not> P c" using assms by blast
  moreover have "\<not> P (0xC0 + x)" "\<not> P (0xE0 + x)" "\<not> P (0xF0 + x)" for x
    using assms [of "0xC0 + x"] assms [of "0xE0 + x"] assms [of "0xF0 + x"] by auto
  ultimately show ?thesis
    using False by (simp add: utf8_char_def)
qed

lemma list_all_str_bytes:
  assumes "\<And>b. P b \<Longrightarrow> b < 0x80"
  shows "list_all P (str_bytes s) \<longleftrightarrow> list_all P s"
  using list_all_utf8_char [of P, OF assms] by (induction s) auto

lemma str_bytes_ascii: "\<forall>c\<in>set s. c < 0x80 \<Longrightarrow> str_bytes s = s"
  by (induction s) auto

lemma utf8_char_length: "0 < length (utf8_char c) \<and> length (utf8_char c) \<le> 4"
  by (simp add: utf8_char_def)

lemma length_str_bytes: "length s \<le> length (str_bytes s)"
  using utf8_char_length by (induction s) (auto simp: Suc_le_eq add_strict_increasing)

section \<open>Character classes\<close>

text \<open>\<open>char::is_control\<close>: general category Cc.\<close>

definition is_control :: "nat \<Rightarrow> bool" where
  "is_control c \<longleftrightarrow> c \<le> 0x1F \<or> 0x7F \<le> c \<and> c \<le> 0x9F"

text \<open>\<open>char::is_whitespace\<close>: the Unicode property \<open>White_Space\<close>.\<close>

definition is_whitespace :: "nat \<Rightarrow> bool" where
  "is_whitespace c \<longleftrightarrow>
     0x09 \<le> c \<and> c \<le> 0x0D \<or> c = 0x20 \<or> c = 0x85 \<or> c = 0xA0 \<or> c = 0x1680
     \<or> 0x2000 \<le> c \<and> c \<le> 0x200A \<or> c = 0x2028 \<or> c = 0x2029 \<or> c = 0x202F
     \<or> c = 0x205F \<or> c = 0x3000"

definition is_ascii_digit :: "nat \<Rightarrow> bool" where
  "is_ascii_digit b \<longleftrightarrow> 0x30 \<le> b \<and> b \<le> 0x39"

definition is_ascii_lowercase :: "nat \<Rightarrow> bool" where
  "is_ascii_lowercase b \<longleftrightarrow> 0x61 \<le> b \<and> b \<le> 0x7A"

definition is_ascii_uppercase :: "nat \<Rightarrow> bool" where
  "is_ascii_uppercase b \<longleftrightarrow> 0x41 \<le> b \<and> b \<le> 0x5A"

definition is_ascii_alphanumeric :: "nat \<Rightarrow> bool" where
  "is_ascii_alphanumeric b \<longleftrightarrow>
     is_ascii_digit b \<or> is_ascii_lowercase b \<or> is_ascii_uppercase b"

definition is_ascii_hexdigit :: "nat \<Rightarrow> bool" where
  "is_ascii_hexdigit b \<longleftrightarrow>
     is_ascii_digit b \<or> 0x61 \<le> b \<and> b \<le> 0x66 \<or> 0x41 \<le> b \<and> b \<le> 0x46"

lemmas char_class_defs =
  is_control_def is_whitespace_def is_ascii_digit_def is_ascii_lowercase_def
  is_ascii_uppercase_def is_ascii_alphanumeric_def is_ascii_hexdigit_def

section \<open>Slicing\<close>

fun strip_prefix :: "nat \<Rightarrow> rstring \<Rightarrow> rstring option" where
  "strip_prefix c [] = None"
| "strip_prefix c (x # s) = (if x = c then Some s else None)"

definition strip_suffix :: "nat \<Rightarrow> rstring \<Rightarrow> rstring option" where
  "strip_suffix c s = (if s \<noteq> [] \<and> last s = c then Some (butlast s) else None)"

definition starts_with :: "nat \<Rightarrow> rstring \<Rightarrow> bool" where
  "starts_with c s \<longleftrightarrow> s \<noteq> [] \<and> hd s = c"

definition ends_with :: "nat \<Rightarrow> rstring \<Rightarrow> bool" where
  "ends_with c s \<longleftrightarrow> s \<noteq> [] \<and> last s = c"

text \<open>\<open>split_once(c)\<close> keeps what is before the first \<open>c\<close>; \<open>None\<close> without one.\<close>

definition split_once_fst :: "nat \<Rightarrow> rstring \<Rightarrow> rstring option" where
  "split_once_fst c s = (if c \<in> set s then Some (takeWhile (\<lambda>x. x \<noteq> c) s) else None)"

text \<open>\<open>split(c)\<close>: the pieces between separators, at least one.\<close>

fun split_on :: "nat \<Rightarrow> rstring \<Rightarrow> rstring list" where
  "split_on c [] = [[]]"
| "split_on c (x # s) =
     (if x = c then [] # split_on c s
      else (case split_on c s of [] \<Rightarrow> [[x]] | p # ps \<Rightarrow> (x # p) # ps))"

definition trim :: "rstring \<Rightarrow> rstring" where
  "trim s = rev (dropWhile is_whitespace (rev (dropWhile is_whitespace s)))"

lemma split_on_not_Nil [simp]: "split_on c s \<noteq> []"
  by (induction s) (auto split: list.split)

lemma split_on_pieces: "p \<in> set (split_on c s) \<Longrightarrow> c \<notin> set p"
  by (induction s arbitrary: p) (auto split: list.splits if_splits)

lemma set_split_on: "set s \<subseteq> insert c (\<Union> (set ` set (split_on c s)))"
proof (induction s)
  case Nil
  then show ?case by simp
next
  case (Cons x s)
  show ?case
  proof (cases "split_on c s")
    case Nil
    then show ?thesis by simp
  next
    case (Cons p ps)
    with Cons.IH show ?thesis by auto
  qed
qed

lemma trim_Nil_iff: "trim s = [] \<longleftrightarrow> (\<forall>c\<in>set s. is_whitespace c)"
proof -
  have "trim s = [] \<longleftrightarrow> (\<forall>c\<in>set (dropWhile is_whitespace s). is_whitespace c)"
    by (simp add: trim_def)
  also have "\<dots> \<longleftrightarrow> dropWhile is_whitespace s = []"
    by (metis dropWhile_eq_Nil_conv empty_iff hd_dropWhile list.set(1) list.set_sel(1))
  finally show ?thesis by simp
qed

section \<open>Address parsers\<close>

text \<open>
  A parser consumes a prefix of the bytes. A failed step gives the bytes back
  (\<open>read_atomically\<close>), so failure carries no remaining input.
\<close>

type_synonym 'a parser = "nat list \<Rightarrow> ('a \<times> nat list) option"

definition to_digit :: "nat \<Rightarrow> nat \<Rightarrow> nat option" where
  "to_digit radix c =
     (if is_ascii_digit c \<and> c - 0x30 < radix then Some (c - 0x30)
      else if 0x61 \<le> c \<and> c \<le> 0x7A \<and> c - 0x61 + 10 < radix then Some (c - 0x61 + 10)
      else if 0x41 \<le> c \<and> c \<le> 0x5A \<and> c - 0x41 + 10 < radix then Some (c - 0x41 + 10)
      else None)"

definition digits_value :: "nat \<Rightarrow> nat list \<Rightarrow> nat" where
  "digits_value radix ds =
     foldl (\<lambda>acc c. acc * radix + (case to_digit radix c of None \<Rightarrow> 0 | Some d \<Rightarrow> d)) 0 ds"

definition read_number :: "nat \<Rightarrow> nat \<Rightarrow> bool \<Rightarrow> nat \<Rightarrow> nat parser" where
  "read_number radix max_digits allow_zero_prefix max_value inp =
     (let ds = takeWhile (\<lambda>c. to_digit radix c \<noteq> None) inp in
      if length ds > max_digits then None
      else if ds = [] then None
      else if \<not> allow_zero_prefix \<and> hd ds = 0x30 \<and> length ds > 1 then None
      else if digits_value radix ds \<le> max_value
        then Some (digits_value radix ds, drop (length ds) inp)
      else None)"

fun read_given_char :: "nat \<Rightarrow> unit parser" where
  "read_given_char c [] = None"
| "read_given_char c (x # inp) = (if x = c then Some ((), inp) else None)"

definition read_separator :: "nat \<Rightarrow> nat \<Rightarrow> 'a parser \<Rightarrow> 'a parser" where
  "read_separator sep index inner inp =
     (if 0 < index
      then (case read_given_char sep inp of None \<Rightarrow> None | Some (_, rest) \<Rightarrow> inner rest)
      else inner inp)"

fun read_octets :: "nat \<Rightarrow> nat \<Rightarrow> nat list parser" where
  "read_octets 0 index inp = Some ([], inp)"
| "read_octets (Suc n) index inp =
     (case read_separator 0x2E index (read_number 10 3 False 255) inp of
        None \<Rightarrow> None
      | Some (o1, rest) \<Rightarrow>
          (case read_octets n (Suc index) rest of
             None \<Rightarrow> None
           | Some (os, rest') \<Rightarrow> Some (o1 # os, rest')))"

definition read_ipv4_addr :: "nat list parser" where
  "read_ipv4_addr = read_octets 4 0"

text \<open>
  \<open>read_groups\<close> reads up to \<open>limit\<close> colon-separated groups from group \<open>index\<close> on; the
  first argument is the number of groups still allowed. A dotted IPv4 tail counts as two
  groups and ends the run.
\<close>

fun read_groups :: "nat \<Rightarrow> nat \<Rightarrow> nat list \<Rightarrow> nat list \<times> bool \<times> nat list" where
  "read_groups 0 index inp = ([], False, inp)"
| "read_groups (Suc left) index inp =
     (case (if 0 < left then read_separator 0x3A index read_ipv4_addr inp else None) of
        Some (os, rest) \<Rightarrow>
          ([os ! 0 * 256 + os ! 1, os ! 2 * 256 + os ! 3], True, rest)
      | None \<Rightarrow>
          (case read_separator 0x3A index (read_number 16 4 True 0xFFFF) inp of
             None \<Rightarrow> ([], False, inp)
           | Some (g, rest) \<Rightarrow>
               (case read_groups left (Suc index) rest of
                  (gs, v4, rest') \<Rightarrow> (g # gs, v4, rest'))))"

definition read_ipv6_addr :: "nat list parser" where
  "read_ipv6_addr inp =
     (case read_groups 8 0 inp of
        (head, head_ipv4, r1) \<Rightarrow>
          if length head = 8 then Some (head, r1)
          else if head_ipv4 then None
          else
            (case read_given_char 0x3A r1 of
               None \<Rightarrow> None
             | Some (_, r2) \<Rightarrow>
                 (case read_given_char 0x3A r2 of
                    None \<Rightarrow> None
                  | Some (_, r3) \<Rightarrow>
                      (case read_groups (8 - (length head + 1)) 0 r3 of
                         (tail, _, r4) \<Rightarrow>
                           Some (head @ replicate (8 - length head - length tail) 0 @ tail, r4)))))"

definition parse_all :: "'a parser \<Rightarrow> nat list \<Rightarrow> 'a option" where
  "parse_all p inp = (case p inp of Some (x, []) \<Rightarrow> Some x | _ \<Rightarrow> None)"

definition parse_ipv4 :: "rstring \<Rightarrow> nat list option" where
  "parse_ipv4 s =
     (if length (str_bytes s) > 15 then None else parse_all read_ipv4_addr (str_bytes s))"

definition parse_ipv6 :: "rstring \<Rightarrow> nat list option" where
  "parse_ipv6 s = parse_all read_ipv6_addr (str_bytes s)"

end
