(* ===== verification/Errors.thy ===== *)
theory Errors
  imports Inherit Rust_Std
begin

text \<open>
  \<open>crates/remoter-core/src/error.rs\<close>: what the domain model refuses to hold, and what a
  tree operation can fail with.
\<close>

datatype validation_error =
    NameEmpty
  | NameTooLong nat
  | NameControlChar
  | DescriptionTooLong nat nat
  | HostEmpty
  | InvalidHost rstring
  | PortOutOfRange
  | InvalidTag rstring
  | InvalidProtocolId rstring
  | InvalidSettingKey rstring
  | InvalidCustomFieldKey rstring
  | InvalidColour rstring
  | InvalidIcon
  | GatewayTooLong nat
  | GatewayCycle node_id
  | GatewayHopUnknown node_id
  | GatewayHopNotAConnection node_id
  | CredentialUnknown node_id
  | CredentialNotACredential node_id
  | CredentialAttachedElsewhere node_id node_id
  | CredentialAttachmentUnknown node_id node_id
  | CredentialAttachmentNotAConnection node_id node_id
  | CredentialPurpose node_id rstring
  | UsernameTooLong nat nat
  | IdentityControlChar
  | ExternalCredentialIncomplete
  | SealedMaterialEmpty
  | InvalidLayout
  | GroupMemberUnknown node_id
  | EmptyAction
  | InvalidReconnectPolicy
  | NonPositiveInterval

datatype core_error =
    Validation validation_error
  | NodeNotFound node_id
  | ParentNotFound node_id
  | DuplicateNodeId node_id
  | NotAContainer node_id
  | Cycle node_id node_id
  | DepthExceeded nat
  | ParentChanged node_id
  | NotAConnection node_id
  | CorruptTree

text \<open>The conversion the question-mark operator applies (\<open>#[from] ValidationError\<close>).\<close>

definition from_validation :: "(validation_error, 'a) result \<Rightarrow> (core_error, 'a) result" where
  "from_validation r = map_err Validation r"

lemma from_validation_Inr_iff [result_simps]: "from_validation r = Inr x \<longleftrightarrow> r = Inr x"
  by (simp add: from_validation_def result_simps)

lemma from_validation_Inl_iff [result_simps]:
  "from_validation r = Inl e \<longleftrightarrow> (\<exists>e'. r = Inl e' \<and> e = Validation e')"
  by (simp add: from_validation_def result_simps)

lemma from_validation_simps [simp]:
  "from_validation (Inr x) = Inr x" "from_validation (Inl e) = Inl (Validation e)"
  by (simp_all add: from_validation_def)

end
