(* ===== verification/Validate_Text.thy ===== *)
theory Validate_Text
  imports Errors
begin

text \<open>
  The part of \<open>crates/remoter-core/src/validate.rs\<close> that checks one text or number: names,
  hosts, DNS names, ports, tags, protocol identifiers, setting keys and colours; and what
  each accepted text is guaranteed to look like.
\<close>

section \<open>Limits\<close>

definition MAX_TREE_DEPTH :: nat where "MAX_TREE_DEPTH = 64"
definition MAX_GATEWAY_HOPS :: nat where "MAX_GATEWAY_HOPS = 8"
definition MAX_NAME_LEN :: nat where "MAX_NAME_LEN = 255"
definition MAX_TAG_LEN :: nat where "MAX_TAG_LEN = 64"
definition MAX_PROTOCOL_ID_LEN :: nat where "MAX_PROTOCOL_ID_LEN = 64"
definition MAX_KEY_LEN :: nat where "MAX_KEY_LEN = 128"
definition MAX_USERNAME_LEN :: nat where "MAX_USERNAME_LEN = 255"
definition MAX_DESCRIPTION_LEN :: nat where "MAX_DESCRIPTION_LEN = 4096"
definition MAX_DNS_NAME_LEN :: nat where "MAX_DNS_NAME_LEN = 253"
definition MAX_DNS_LABEL_LEN :: nat where "MAX_DNS_LABEL_LEN = 63"

lemmas limit_defs =
  MAX_GATEWAY_HOPS_def MAX_NAME_LEN_def MAX_TAG_LEN_def MAX_PROTOCOL_ID_LEN_def
  MAX_KEY_LEN_def MAX_USERNAME_LEN_def MAX_DESCRIPTION_LEN_def MAX_DNS_NAME_LEN_def
  MAX_DNS_LABEL_LEN_def

section \<open>Names\<close>

definition validate_name :: "rstring \<Rightarrow> (validation_error, unit) result" where
  "validate_name name =
     (if name = [] then Inl NameEmpty
      else let len = length name in
        if len > MAX_NAME_LEN then Inl (NameTooLong len)
        else if list_ex is_control name then Inl NameControlChar
        else Inr ())"

section \<open>Hosts\<close>

text \<open>
  The loop over the labels returns the last label it saw, or the failure it stopped at.
\<close>

fun dns_labels :: "rstring \<Rightarrow> rstring list \<Rightarrow> (unit, rstring) result" where
  "dns_labels last_label [] = Inr last_label"
| "dns_labels last_label (label # labels) =
     (if label = [] \<or> length (str_bytes label) > MAX_DNS_LABEL_LEN then Inl ()
      else if \<not> list_all (\<lambda>b. is_ascii_alphanumeric b \<or> b = 0x2D) (str_bytes label) then Inl ()
      else if starts_with 0x2D label \<or> ends_with 0x2D label then Inl ()
      else dns_labels label labels)"

definition validate_dns_name :: "rstring \<Rightarrow> (unit, unit) result" where
  "validate_dns_name host0 =
     (let host = (case strip_suffix 0x2E host0 of Some h \<Rightarrow> h | None \<Rightarrow> host0) in
      if host = [] \<or> length host > MAX_DNS_NAME_LEN then Inl ()
      else and_then (dns_labels [] (split_on 0x2E host))
        (\<lambda>last_label.
           if list_all is_ascii_digit (str_bytes last_label) then Inl () else Inr ()))"

definition validate_host :: "rstring \<Rightarrow> (validation_error, unit) result" where
  "validate_host host =
     (if host = [] then Inl HostEmpty
      else
        (case strip_prefix 0x5B host of
           Some inner \<Rightarrow>
             (case strip_suffix 0x5D inner of
                None \<Rightarrow> Inl (InvalidHost host)
              | Some addr0 \<Rightarrow>
                  let addr = (case split_once_fst 0x25 addr0 of None \<Rightarrow> addr0 | Some a \<Rightarrow> a) in
                  (case parse_ipv6 addr of
                     None \<Rightarrow> Inl (InvalidHost host)
                   | Some _ \<Rightarrow> Inr ()))
         | None \<Rightarrow>
             if parse_ipv4 host \<noteq> None then Inr ()
             else if 0x3A \<in> set host then Inl (InvalidHost host)
             else map_err (\<lambda>_. InvalidHost host) (validate_dns_name host)))"

section \<open>Ports, tags, identifiers, keys, colours\<close>

definition validate_port :: "u16 \<Rightarrow> (validation_error, unit) result" where
  "validate_port port = (if port = 0 then Inl PortOutOfRange else Inr ())"

definition validate_tag :: "rstring \<Rightarrow> (validation_error, unit) result" where
  "validate_tag tag =
     (if tag = [] \<or> length tag > MAX_TAG_LEN then Inl (InvalidTag tag)
      else if list_ex (\<lambda>c. is_control c \<or> is_whitespace c \<or> c = 0x2C) tag then Inl (InvalidTag tag)
      else Inr ())"

definition validate_protocol_id :: "rstring \<Rightarrow> (validation_error, unit) result" where
  "validate_protocol_id i =
     (if i = [] \<or> length i > MAX_PROTOCOL_ID_LEN then Inl (InvalidProtocolId i)
      else if \<not> list_all (\<lambda>b. is_ascii_lowercase b \<or> is_ascii_digit b \<or> b = 0x2E \<or> b = 0x2D \<or> b = 0x5F)
                (str_bytes i) then Inl (InvalidProtocolId i)
      else if starts_with 0x2E i \<or> ends_with 0x2E i then Inl (InvalidProtocolId i)
      else Inr ())"

definition validate_key_syntax :: "rstring \<Rightarrow> (unit, unit) result" where
  "validate_key_syntax key =
     (if key = [] \<or> length key > MAX_KEY_LEN then Inl ()
      else if \<not> list_all (\<lambda>b. is_ascii_alphanumeric b \<or> b = 0x2E \<or> b = 0x2D \<or> b = 0x5F)
                (str_bytes key) then Inl ()
      else if starts_with 0x2E key \<or> ends_with 0x2E key then Inl ()
      else Inr ())"

definition validate_setting_key :: "rstring \<Rightarrow> (validation_error, unit) result" where
  "validate_setting_key key = map_err (\<lambda>_. InvalidSettingKey key) (validate_key_syntax key)"

definition validate_custom_field_key :: "rstring \<Rightarrow> (validation_error, unit) result" where
  "validate_custom_field_key key =
     map_err (\<lambda>_. InvalidCustomFieldKey key) (validate_key_syntax key)"

definition validate_colour :: "rstring \<Rightarrow> (validation_error, unit) result" where
  "validate_colour colour =
     (case strip_prefix 0x23 colour of
        None \<Rightarrow> Inl (InvalidColour colour)
      | Some digits \<Rightarrow>
          if length (str_bytes digits) \<noteq> 6 \<and> length (str_bytes digits) \<noteq> 8
          then Inl (InvalidColour colour)
          else if \<not> list_all is_ascii_hexdigit (str_bytes digits) then Inl (InvalidColour colour)
          else Inr ())"

end
