(* ===== verification/Node.thy ===== *)
theory Node
  imports Validate_Text
begin

text \<open>
  \<open>crates/remoter-core/src/node.rs\<close>: references, gateway chains, policies, protocol
  settings, secrets, the properties of each kind of node, the node itself with its field
  accessors, and the traversals over the references a node holds. Record fields carry the
  Rust field name behind a prefix for the struct (\<open>f_\<close> folder, \<open>c_\<close> connection, \<open>cr_\<close>
  credential, \<open>g_\<close> group, \<open>n_\<close> node, \<open>e_\<close> effective connection).
\<close>

section \<open>Tags and protocol identifiers\<close>

type_synonym tag = rstring
type_synonym protocol_id = rstring

definition tag_new :: "rstring \<Rightarrow> (validation_error, tag) result" where
  "tag_new t = and_then (validate_tag t) (\<lambda>_. Inr t)"

definition protocol_id_new :: "rstring \<Rightarrow> (validation_error, protocol_id) result" where
  "protocol_id_new i = and_then (validate_protocol_id i) (\<lambda>_. Inr i)"

definition default_port :: "protocol_id \<Rightarrow> u16 option" where
  "default_port p =
     (if p = lit ''ssh'' \<or> p = lit ''sftp'' then Some 22
      else if p = lit ''rdp'' then Some 3389
      else if p = lit ''vnc'' then Some 5900
      else if p = lit ''telnet'' then Some 23
      else if p = lit ''http'' then Some 80
      else if p = lit ''https'' then Some 443
      else None)"

section \<open>References\<close>

datatype node_ref = Live node_id | Deleted node_id rstring

fun ref_id :: "node_ref \<Rightarrow> node_id" where
  "ref_id (Live i) = i"
| "ref_id (Deleted i nm) = i"

fun ref_is_deleted :: "node_ref \<Rightarrow> bool" where
  "ref_is_deleted (Live i) = False"
| "ref_is_deleted (Deleted i nm) = True"

fun ref_retarget :: "(node_id, node_id) hash_map \<Rightarrow> node_ref \<Rightarrow> node_ref" where
  "ref_retarget m (Live i) = Live (case map_of m i of None \<Rightarrow> i | Some j \<Rightarrow> j)"
| "ref_retarget m (Deleted i nm) = Deleted (case map_of m i of None \<Rightarrow> i | Some j \<Rightarrow> j) nm"

text \<open>An update in place reports whether it changed anything.\<close>

fun ref_tombstone :: "rstring \<Rightarrow> node_ref \<Rightarrow> bool \<times> node_ref" where
  "ref_tombstone nm (Live i) = (True, Deleted i nm)"
| "ref_tombstone nm (Deleted i old) = (False, Deleted i old)"

datatype credential_ref = CredentialRef (as_node_ref: node_ref)

definition credential_ref_live :: "node_id \<Rightarrow> credential_ref" where
  "credential_ref_live i = CredentialRef (Live i)"

definition credential_ref_deleted :: "node_id \<Rightarrow> rstring \<Rightarrow> credential_ref" where
  "credential_ref_deleted i nm = CredentialRef (Deleted i nm)"

definition credential_ref_id :: "credential_ref \<Rightarrow> node_id" where
  "credential_ref_id r = ref_id (as_node_ref r)"

definition credential_ref_is_deleted :: "credential_ref \<Rightarrow> bool" where
  "credential_ref_is_deleted r = ref_is_deleted (as_node_ref r)"

definition credential_ref_tombstone :: "rstring \<Rightarrow> credential_ref \<Rightarrow> bool \<times> credential_ref" where
  "credential_ref_tombstone nm r =
     (case ref_tombstone nm (as_node_ref r) of (ch, r') \<Rightarrow> (ch, CredentialRef r'))"

section \<open>Gateway chains, policies, layouts\<close>

record gateway_hop =
  h_node :: node_ref
  h_credential :: "credential_ref option"

record gateway_chain =
  gc_hops :: "gateway_hop list"

definition gateway_direct :: gateway_chain where
  "gateway_direct = \<lparr>gc_hops = []\<rparr>"

definition gateway_is_direct :: "gateway_chain \<Rightarrow> bool" where
  "gateway_is_direct chain \<longleftrightarrow> gc_hops chain = []"

definition gateway_len :: "gateway_chain \<Rightarrow> nat" where
  "gateway_len chain = length (gc_hops chain)"

definition gateway_from_iter :: "gateway_hop list \<Rightarrow> gateway_chain" where
  "gateway_from_iter hops = \<lparr>gc_hops = hops\<rparr>"

definition gateway_hop_new :: "node_id \<Rightarrow> gateway_hop" where
  "gateway_hop_new i = \<lparr>h_node = Live i, h_credential = None\<rparr>"

definition gateway_hop_with_credential :: "node_id \<Rightarrow> credential_ref \<Rightarrow> gateway_hop" where
  "gateway_hop_with_credential i c = \<lparr>h_node = Live i, h_credential = Some c\<rparr>"

datatype recording_policy = RecNever | RecOnRequest | RecAlways

datatype reconnect_policy = ReconnectNever | Retry u32 u32 u32
  \<comment> \<open>attempts, initial backoff and maximum backoff in milliseconds\<close>

datatype group_layout = Tabs | SplitH | SplitV | Grid u16 u16

datatype key_format = OpenSsh | Pkcs8 | PuttyPpk

text \<open>The derived \<open>Default\<close> of each policy type.\<close>

definition recording_policy_default :: recording_policy where
  "recording_policy_default = RecNever"

definition reconnect_policy_default :: reconnect_policy where
  "reconnect_policy_default = ReconnectNever"

section \<open>Protocol settings\<close>

type_synonym protocol_settings = "(rstring, rstring) btree_map"

definition settings_new :: protocol_settings where
  "settings_new = []"

definition settings_insert ::
  "rstring \<Rightarrow> rstring \<Rightarrow> protocol_settings
    \<Rightarrow> (validation_error, rstring option \<times> protocol_settings) result" where
  "settings_insert key value s =
     and_then (validate_setting_key key) (\<lambda>_. Inr (map_of s key, btree_insert key value s))"

definition settings_get :: "rstring \<Rightarrow> protocol_settings \<Rightarrow> rstring option" where
  "settings_get key s = map_of s key"

definition settings_remove :: "rstring \<Rightarrow> protocol_settings \<Rightarrow> rstring option \<times> protocol_settings" where
  "settings_remove key s = (map_of s key, btree_remove key s)"

definition settings_contains_key :: "rstring \<Rightarrow> protocol_settings \<Rightarrow> bool" where
  "settings_contains_key key s \<longleftrightarrow> map_of s key \<noteq> None"

definition settings_len :: "protocol_settings \<Rightarrow> nat" where
  "settings_len s = length s"

definition settings_try_from ::
  "(rstring, rstring) btree_map \<Rightarrow> (validation_error, protocol_settings) result" where
  "settings_try_from m = and_then (try_each validate_setting_key (map fst m)) (\<lambda>_. Inr m)"

section \<open>Secrets\<close>

datatype secret_kind =
    Password "u8 list"
  | PrivateKey "u8 list" "u8 list option" key_format
  | Agent "rstring option"
  | External rstring rstring
  | Certificate "u8 list" "u8 list"

text \<open>The hand-written \<open>Debug\<close>: the variant's name and nothing else.\<close>

definition secret_kind_debug :: "secret_kind \<Rightarrow> string" where
  "secret_kind_debug s =
     (let variant = (case s of
          Password _ \<Rightarrow> ''Password''
        | PrivateKey _ _ _ \<Rightarrow> ''PrivateKey''
        | Agent _ \<Rightarrow> ''Agent''
        | External _ _ \<Rightarrow> ''External''
        | Certificate _ _ \<Rightarrow> ''Certificate'')
      in ''SecretKind::'' @ variant @ ''(<redacted>)'')"

section \<open>Properties of each kind\<close>

record folder_props =
  f_credential :: "credential_ref inherited"
  f_gateway :: "gateway_chain inherited"
  f_port :: "u16 inherited"
  f_connect_timeout_ms :: "u32 inherited"
  f_keepalive_secs :: "u32 inherited"
  f_on_connect :: "rstring list inherited"
  f_on_disconnect :: "rstring list inherited"
  f_recording :: "recording_policy inherited"
  f_auto_reconnect :: "reconnect_policy inherited"
  f_settings :: protocol_settings

record connection_props =
  c_protocol :: protocol_id
  c_host :: rstring
  c_port :: "u16 inherited"
  c_credential :: "credential_ref inherited"
  c_gateway :: "gateway_chain inherited"
  c_settings :: protocol_settings
  c_on_connect :: "rstring list inherited"
  c_on_disconnect :: "rstring list inherited"
  c_recording :: "recording_policy inherited"
  c_auto_reconnect :: "reconnect_policy inherited"
  c_connect_timeout_ms :: "u32 inherited"
  c_keepalive_secs :: "u32 inherited"

record credential_props =
  cr_attached_to :: "node_id option"
  cr_username :: rstring
  cr_domain :: "rstring option"
  cr_secret :: secret_kind
  cr_totp :: "u8 list option"
  cr_expires_at :: "i64 option"
  cr_allowed_protocols :: "protocol_id list"

record group_props =
  g_members :: "node_ref list"
  g_layout :: group_layout
  g_broadcast :: bool

definition folder_default :: folder_props where
  "folder_default =
     \<lparr>f_credential = Inherit, f_gateway = Inherit, f_port = Inherit,
      f_connect_timeout_ms = Inherit, f_keepalive_secs = Inherit, f_on_connect = Inherit,
      f_on_disconnect = Inherit, f_recording = Inherit, f_auto_reconnect = Inherit,
      f_settings = settings_new\<rparr>"

definition connection_new ::
  "rstring \<Rightarrow> rstring \<Rightarrow> (validation_error, connection_props) result" where
  "connection_new protocol host =
     and_then (protocol_id_new protocol) (\<lambda>p. Inr
       \<lparr>c_protocol = p, c_host = host, c_port = Inherit, c_credential = Inherit,
        c_gateway = Inherit, c_settings = settings_new, c_on_connect = Inherit,
        c_on_disconnect = Inherit, c_recording = Inherit, c_auto_reconnect = Inherit,
        c_connect_timeout_ms = Inherit, c_keepalive_secs = Inherit\<rparr>)"

definition credential_new :: "rstring \<Rightarrow> secret_kind \<Rightarrow> credential_props" where
  "credential_new username secret =
     \<lparr>cr_attached_to = None, cr_username = username, cr_domain = None, cr_secret = secret,
      cr_totp = None, cr_expires_at = None, cr_allowed_protocols = []\<rparr>"

definition credential_attached :: "node_id \<Rightarrow> rstring \<Rightarrow> secret_kind \<Rightarrow> credential_props" where
  "credential_attached connection username secret =
     (credential_new username secret)\<lparr>cr_attached_to := Some connection\<rparr>"

definition is_attached :: "credential_props \<Rightarrow> bool" where
  "is_attached props \<longleftrightarrow> cr_attached_to props \<noteq> None"

definition belongs_to :: "credential_props \<Rightarrow> node_id \<Rightarrow> bool" where
  "belongs_to props connection \<longleftrightarrow> cr_attached_to props = Some connection"

definition permits :: "credential_props \<Rightarrow> protocol_id \<Rightarrow> bool" where
  "permits props protocol \<longleftrightarrow>
     cr_allowed_protocols props = [] \<or> protocol \<in> set (cr_allowed_protocols props)"

datatype node_kind =
    Folder folder_props
  | Connection connection_props
  | Credential credential_props
  | Group group_props
  | Separator

definition kind_folder :: node_kind where
  "kind_folder = Folder folder_default"

definition kind_label :: "node_kind \<Rightarrow> string" where
  "kind_label k =
     (case k of
        Folder _ \<Rightarrow> ''folder'' | Connection _ \<Rightarrow> ''connection'' | Credential _ \<Rightarrow> ''credential''
      | Group _ \<Rightarrow> ''group'' | Separator \<Rightarrow> ''separator'')"

fun is_container :: "node_kind \<Rightarrow> bool" where
  "is_container (Folder f) = True"
| "is_container (Connection c) = False"
| "is_container (Credential cr) = False"
| "is_container (Group g) = False"
| "is_container Separator = False"

fun as_connection :: "node_kind \<Rightarrow> connection_props option" where
  "as_connection (Connection c) = Some c"
| "as_connection (Folder f) = None"
| "as_connection (Credential cr) = None"
| "as_connection (Group g) = None"
| "as_connection Separator = None"

fun as_credential :: "node_kind \<Rightarrow> credential_props option" where
  "as_credential (Credential cr) = Some cr"
| "as_credential (Folder f) = None"
| "as_credential (Connection c) = None"
| "as_credential (Group g) = None"
| "as_credential Separator = None"

fun as_folder :: "node_kind \<Rightarrow> folder_props option" where
  "as_folder (Folder f) = Some f"
| "as_folder (Connection c) = None"
| "as_folder (Credential cr) = None"
| "as_folder (Group g) = None"
| "as_folder Separator = None"

fun as_group :: "node_kind \<Rightarrow> group_props option" where
  "as_group (Group g) = Some g"
| "as_group (Folder f) = None"
| "as_group (Connection c) = None"
| "as_group (Credential cr) = None"
| "as_group Separator = None"

lemma as_kind_Some_iff [simp]:
  "as_connection k = Some c \<longleftrightarrow> k = Connection c"
  "as_credential k = Some cr \<longleftrightarrow> k = Credential cr"
  "as_folder k = Some f \<longleftrightarrow> k = Folder f"
  "as_group k = Some g \<longleftrightarrow> k = Group g"
  by (cases k; auto)+

section \<open>Nodes\<close>

record node =
  n_id :: node_id
  n_parent_id :: "node_id option"
  n_sort_order :: i64
  n_kind :: node_kind
  n_name :: rstring
  n_description :: rstring
  n_tags :: "tag list"
  n_icon :: "rstring option"
  n_colour :: "rstring option"
  n_created_at :: i64
  n_updated_at :: i64
  n_revision :: u64
  n_custom_fields :: "(rstring, rstring) btree_map"
  n_deleted_at :: "i64 option"

definition node_with_id :: "node_id \<Rightarrow> node_kind \<Rightarrow> rstring \<Rightarrow> i64 \<Rightarrow> node" where
  "node_with_id i k nm now =
     \<lparr>n_id = i, n_parent_id = None, n_sort_order = 0, n_kind = k, n_name = nm,
      n_description = [], n_tags = [], n_icon = None, n_colour = None,
      n_created_at = now, n_updated_at = now, n_revision = 1, n_custom_fields = [],
      n_deleted_at = None\<rparr>"

text \<open>\<open>Node::new\<close> draws the identity from the UUID generator, here its argument.\<close>

definition node_new :: "node_id \<Rightarrow> node_kind \<Rightarrow> rstring \<Rightarrow> i64 \<Rightarrow> node" where
  "node_new fresh k nm now = node_with_id fresh k nm now"

definition node_under :: "node_id \<Rightarrow> i64 \<Rightarrow> node \<Rightarrow> node" where
  "node_under parent order n = n\<lparr>n_parent_id := Some parent, n_sort_order := order\<rparr>"

definition node_is_deleted :: "node \<Rightarrow> bool" where
  "node_is_deleted n \<longleftrightarrow> n_deleted_at n \<noteq> None"

definition has_tag :: "rstring \<Rightarrow> node \<Rightarrow> bool" where
  "has_tag t n \<longleftrightarrow> list_ex (\<lambda>x. x = t) (n_tags n)"

definition node_touch :: "i64 \<Rightarrow> node \<Rightarrow> node" where
  "node_touch now n = n\<lparr>n_revision := saturating_add (n_revision n) 1, n_updated_at := now\<rparr>"

subsection \<open>Field accessors\<close>

definition port_field :: "node \<Rightarrow> u16 inherited option" where
  "port_field n =
     (case n_kind n of Folder f \<Rightarrow> Some (f_port f) | Connection c \<Rightarrow> Some (c_port c) | _ \<Rightarrow> None)"

definition credential_field :: "node \<Rightarrow> credential_ref inherited option" where
  "credential_field n =
     (case n_kind n of
        Folder f \<Rightarrow> Some (f_credential f) | Connection c \<Rightarrow> Some (c_credential c) | _ \<Rightarrow> None)"

definition gateway_field :: "node \<Rightarrow> gateway_chain inherited option" where
  "gateway_field n =
     (case n_kind n of
        Folder f \<Rightarrow> Some (f_gateway f) | Connection c \<Rightarrow> Some (c_gateway c) | _ \<Rightarrow> None)"

definition connect_timeout_field :: "node \<Rightarrow> u32 inherited option" where
  "connect_timeout_field n =
     (case n_kind n of
        Folder f \<Rightarrow> Some (f_connect_timeout_ms f)
      | Connection c \<Rightarrow> Some (c_connect_timeout_ms c)
      | _ \<Rightarrow> None)"

definition keepalive_field :: "node \<Rightarrow> u32 inherited option" where
  "keepalive_field n =
     (case n_kind n of
        Folder f \<Rightarrow> Some (f_keepalive_secs f) | Connection c \<Rightarrow> Some (c_keepalive_secs c) | _ \<Rightarrow> None)"

definition on_connect_field :: "node \<Rightarrow> rstring list inherited option" where
  "on_connect_field n =
     (case n_kind n of
        Folder f \<Rightarrow> Some (f_on_connect f) | Connection c \<Rightarrow> Some (c_on_connect c) | _ \<Rightarrow> None)"

definition on_disconnect_field :: "node \<Rightarrow> rstring list inherited option" where
  "on_disconnect_field n =
     (case n_kind n of
        Folder f \<Rightarrow> Some (f_on_disconnect f) | Connection c \<Rightarrow> Some (c_on_disconnect c) | _ \<Rightarrow> None)"

definition recording_field :: "node \<Rightarrow> recording_policy inherited option" where
  "recording_field n =
     (case n_kind n of
        Folder f \<Rightarrow> Some (f_recording f) | Connection c \<Rightarrow> Some (c_recording c) | _ \<Rightarrow> None)"

definition auto_reconnect_field :: "node \<Rightarrow> reconnect_policy inherited option" where
  "auto_reconnect_field n =
     (case n_kind n of
        Folder f \<Rightarrow> Some (f_auto_reconnect f) | Connection c \<Rightarrow> Some (c_auto_reconnect c) | _ \<Rightarrow> None)"

definition settings_field :: "node \<Rightarrow> protocol_settings option" where
  "settings_field n =
     (case n_kind n of Folder f \<Rightarrow> Some (f_settings f) | Connection c \<Rightarrow> Some (c_settings c) | _ \<Rightarrow> None)"

definition icon_field :: "node \<Rightarrow> rstring option" where
  "icon_field n = n_icon n"

definition colour_field :: "node \<Rightarrow> rstring option" where
  "colour_field n = n_colour n"

lemmas field_defs =
  port_field_def credential_field_def gateway_field_def connect_timeout_field_def
  keepalive_field_def on_connect_field_def on_disconnect_field_def recording_field_def
  auto_reconnect_field_def settings_field_def icon_field_def colour_field_def

text \<open>Whether an edit can change what a descendant inherits.\<close>

definition inheritance_differs :: "node \<Rightarrow> node \<Rightarrow> bool" where
  "inheritance_differs a b \<longleftrightarrow>
     port_field a \<noteq> port_field b
     \<or> credential_field a \<noteq> credential_field b
     \<or> gateway_field a \<noteq> gateway_field b
     \<or> connect_timeout_field a \<noteq> connect_timeout_field b
     \<or> keepalive_field a \<noteq> keepalive_field b
     \<or> on_connect_field a \<noteq> on_connect_field b
     \<or> on_disconnect_field a \<noteq> on_disconnect_field b
     \<or> recording_field a \<noteq> recording_field b
     \<or> auto_reconnect_field a \<noteq> auto_reconnect_field b
     \<or> settings_field a \<noteq> settings_field b
     \<or> n_icon a \<noteq> n_icon b
     \<or> n_colour a \<noteq> n_colour b"

subsection \<open>References a node holds\<close>

definition hop_refs :: "gateway_hop \<Rightarrow> node_ref list" where
  "hop_refs h = h_node h # (case h_credential h of None \<Rightarrow> [] | Some c \<Rightarrow> [as_node_ref c])"

definition node_references :: "node \<Rightarrow> node_ref list" where
  "node_references n =
     (case credential_field n of Some (Explicit c) \<Rightarrow> [as_node_ref c] | _ \<Rightarrow> [])
     @ (case gateway_field n of Some (Explicit chain) \<Rightarrow> concat (map hop_refs (gc_hops chain)) | _ \<Rightarrow> [])
     @ (case n_kind n of Group g \<Rightarrow> g_members g | _ \<Rightarrow> [])"

text \<open>
  \<open>references_mut\<close> hands out the references one by one for update in place; here the update
  is applied to each of them in that order. An update maps a reference to the one that
  replaces it.
\<close>

definition hop_map_refs :: "(node_ref \<Rightarrow> node_ref) \<Rightarrow> gateway_hop \<Rightarrow> gateway_hop" where
  "hop_map_refs f h =
     \<lparr>h_node = f (h_node h),
      h_credential = map_option (\<lambda>c. CredentialRef (f (as_node_ref c))) (h_credential h)\<rparr>"

definition credential_map_refs ::
  "(node_ref \<Rightarrow> node_ref) \<Rightarrow> credential_ref inherited \<Rightarrow> credential_ref inherited" where
  "credential_map_refs f field =
     (case field of Explicit c \<Rightarrow> Explicit (CredentialRef (f (as_node_ref c))) | _ \<Rightarrow> field)"

definition gateway_map_refs ::
  "(node_ref \<Rightarrow> node_ref) \<Rightarrow> gateway_chain inherited \<Rightarrow> gateway_chain inherited" where
  "gateway_map_refs f field =
     (case field of
        Explicit chain \<Rightarrow> Explicit (chain\<lparr>gc_hops := map (hop_map_refs f) (gc_hops chain)\<rparr>)
      | _ \<Rightarrow> field)"

definition kind_map_refs :: "(node_ref \<Rightarrow> node_ref) \<Rightarrow> node_kind \<Rightarrow> node_kind" where
  "kind_map_refs f k =
     (case k of
        Folder p \<Rightarrow> Folder (p\<lparr>f_credential := credential_map_refs f (f_credential p),
                              f_gateway := gateway_map_refs f (f_gateway p)\<rparr>)
      | Connection p \<Rightarrow> Connection (p\<lparr>c_credential := credential_map_refs f (c_credential p),
                                      c_gateway := gateway_map_refs f (c_gateway p)\<rparr>)
      | Group p \<Rightarrow> Group (p\<lparr>g_members := map f (g_members p)\<rparr>)
      | Credential p \<Rightarrow> Credential p
      | Separator \<Rightarrow> Separator)"

definition references_mut :: "(node_ref \<Rightarrow> node_ref) \<Rightarrow> node \<Rightarrow> node" where
  "references_mut f n = n\<lparr>n_kind := kind_map_refs f (n_kind n)\<rparr>"

text \<open>
  \<open>keep\<close> and \<open>name\<close> are the caller's closures. The count goes up once for every reference
  that is turned.
\<close>

definition tombstone_if ::
  "(node_id \<Rightarrow> bool) \<Rightarrow> (node_id \<Rightarrow> rstring) \<Rightarrow> node_ref \<Rightarrow> bool \<times> node_ref" where
  "tombstone_if keep name r =
     (if \<not> ref_is_deleted r \<and> \<not> keep (ref_id r) then ref_tombstone (name (ref_id r)) r
      else (False, r))"

definition tombstone_references ::
  "(node_id \<Rightarrow> bool) \<Rightarrow> (node_id \<Rightarrow> rstring) \<Rightarrow> node \<Rightarrow> nat \<times> node" where
  "tombstone_references keep name n =
     (length (filter (\<lambda>r. fst (tombstone_if keep name r)) (node_references n)),
      references_mut (\<lambda>r. snd (tombstone_if keep name r)) n)"

section \<open>Effective connections\<close>

record effective_connection =
  e_node :: node_id
  e_name :: rstring
  e_protocol :: protocol_id
  e_host :: rstring
  e_port :: "u16 option resolved"
  e_credential :: "credential_ref option resolved"
  e_username :: "rstring option resolved"
  e_credential_attached :: bool
  e_gateway :: "gateway_chain resolved"
  e_connect_timeout_ms :: "u32 option resolved"
  e_keepalive_secs :: "u32 option resolved"
  e_settings :: "(rstring, rstring resolved) btree_map"
  e_on_connect :: "rstring list resolved"
  e_on_disconnect :: "rstring list resolved"
  e_recording :: "recording_policy resolved"
  e_auto_reconnect :: "reconnect_policy resolved"
  e_icon :: "rstring option resolved"
  e_colour :: "rstring option resolved"

text \<open>The loop of \<open>settings_provenance\<close>, over the values in key order.\<close>

fun settings_provenance_loop :: "provenance \<Rightarrow> rstring resolved list \<Rightarrow> provenance" where
  "settings_provenance_loop coarse [] = coarse"
| "settings_provenance_loop coarse (r # rs) =
     (case r_provenance r of
        Own i \<Rightarrow> Own i
      | Ancestor i \<Rightarrow> settings_provenance_loop (Ancestor i) rs
      | DefaultAt _ \<Rightarrow> settings_provenance_loop coarse rs
      | DefaultAtRoot \<Rightarrow> settings_provenance_loop coarse rs)"

definition settings_provenance :: "(rstring, rstring resolved) btree_map \<Rightarrow> provenance" where
  "settings_provenance settings = settings_provenance_loop DefaultAtRoot (map snd settings)"

definition effective_provenance :: "effective_connection \<Rightarrow> (string \<times> provenance) list" where
  "effective_provenance e =
     [(''port'', r_provenance (e_port e)),
      (''credential'', r_provenance (e_credential e)),
      (''username'', r_provenance (e_username e)),
      (''gateway'', r_provenance (e_gateway e)),
      (''connect_timeout_ms'', r_provenance (e_connect_timeout_ms e)),
      (''keepalive_secs'', r_provenance (e_keepalive_secs e)),
      (''on_connect'', r_provenance (e_on_connect e)),
      (''on_disconnect'', r_provenance (e_on_disconnect e)),
      (''recording'', r_provenance (e_recording e)),
      (''auto_reconnect'', r_provenance (e_auto_reconnect e)),
      (''icon'', r_provenance (e_icon e)),
      (''colour'', r_provenance (e_colour e)),
      (''settings'', settings_provenance (e_settings e))]"

definition has_inherited_fields :: "effective_connection \<Rightarrow> bool" where
  "has_inherited_fields e \<longleftrightarrow>
     list_ex (\<lambda>(_, p). provenance_is_inherited p) (effective_provenance e)
     \<or> list_ex (\<lambda>(_, r). resolved_is_inherited r) (e_settings e)"

end
