(* ===== verification/Validate_Node.thy ===== *)
theory Validate_Node
  imports Node
begin

text \<open>
  The part of \<open>crates/remoter-core/src/validate.rs\<close> that checks a node without the tree, in
  the order the code checks, and what acceptance guarantees.
\<close>

section \<open>Checks of single fields\<close>

definition validate_inherited_port :: "u16 inherited \<Rightarrow> (validation_error, unit) result" where
  "validate_inherited_port port =
     (case explicit port of Some p \<Rightarrow> validate_port p | None \<Rightarrow> Inr ())"

definition validate_inherited_interval :: "u32 inherited \<Rightarrow> (validation_error, unit) result" where
  "validate_inherited_interval interval =
     (case explicit interval of
        Some n \<Rightarrow> if n = 0 then Inl NonPositiveInterval else Inr ()
      | None \<Rightarrow> Inr ())"

definition validate_inherited_actions ::
  "rstring list inherited \<Rightarrow> (validation_error, unit) result" where
  "validate_inherited_actions actions =
     (case explicit actions of
        None \<Rightarrow> Inr ()
      | Some as \<Rightarrow> if list_ex (\<lambda>a. trim a = []) as then Inl EmptyAction else Inr ())"

definition validate_inherited_reconnect ::
  "reconnect_policy inherited \<Rightarrow> (validation_error, unit) result" where
  "validate_inherited_reconnect policy =
     (case explicit policy of
        Some (Retry max_attempts initial_backoff_ms max_backoff_ms) \<Rightarrow>
          if max_attempts = 0 \<or> initial_backoff_ms = 0 \<or> max_backoff_ms < initial_backoff_ms
          then Inl InvalidReconnectPolicy else Inr ()
      | _ \<Rightarrow> Inr ())"

text \<open>The loop over the hops, with the hops before the current one in \<open>seen\<close>.\<close>

fun gateway_no_repeat ::
  "gateway_hop list \<Rightarrow> gateway_hop list \<Rightarrow> (validation_error, unit) result" where
  "gateway_no_repeat seen [] = Inr ()"
| "gateway_no_repeat seen (hop # hops) =
     (if list_ex (\<lambda>h. ref_id (h_node h) = ref_id (h_node hop)) seen
      then Inl (GatewayCycle (ref_id (h_node hop)))
      else gateway_no_repeat (seen @ [hop]) hops)"

definition validate_gateway_chain :: "gateway_chain \<Rightarrow> (validation_error, unit) result" where
  "validate_gateway_chain chain =
     (if length (gc_hops chain) > MAX_GATEWAY_HOPS
      then Inl (GatewayTooLong (length (gc_hops chain)))
      else gateway_no_repeat [] (gc_hops chain))"

definition validate_inherited_gateway ::
  "gateway_chain inherited \<Rightarrow> (validation_error, unit) result" where
  "validate_inherited_gateway gateway =
     (case explicit gateway of None \<Rightarrow> Inr () | Some chain \<Rightarrow> validate_gateway_chain chain)"

definition validate_settings :: "protocol_settings \<Rightarrow> (validation_error, unit) result" where
  "validate_settings settings = try_each (\<lambda>(key, _). validate_setting_key key) settings"

section \<open>Checks of each kind\<close>

definition validate_folder :: "folder_props \<Rightarrow> (validation_error, unit) result" where
  "validate_folder p =
     and_then (validate_inherited_port (f_port p)) (\<lambda>_.
     and_then (validate_inherited_gateway (f_gateway p)) (\<lambda>_.
     and_then (validate_inherited_interval (f_connect_timeout_ms p)) (\<lambda>_.
     and_then (validate_inherited_interval (f_keepalive_secs p)) (\<lambda>_.
     and_then (validate_inherited_actions (f_on_connect p)) (\<lambda>_.
     and_then (validate_inherited_actions (f_on_disconnect p)) (\<lambda>_.
     and_then (validate_inherited_reconnect (f_auto_reconnect p)) (\<lambda>_.
     validate_settings (f_settings p))))))))"

definition validate_connection :: "connection_props \<Rightarrow> (validation_error, unit) result" where
  "validate_connection p =
     and_then (validate_host (c_host p)) (\<lambda>_.
     and_then (validate_inherited_port (c_port p)) (\<lambda>_.
     and_then (validate_inherited_gateway (c_gateway p)) (\<lambda>_.
     and_then (validate_inherited_interval (c_connect_timeout_ms p)) (\<lambda>_.
     and_then (validate_inherited_interval (c_keepalive_secs p)) (\<lambda>_.
     and_then (validate_inherited_actions (c_on_connect p)) (\<lambda>_.
     and_then (validate_inherited_actions (c_on_disconnect p)) (\<lambda>_.
     and_then (validate_inherited_reconnect (c_auto_reconnect p)) (\<lambda>_.
     validate_settings (c_settings p)))))))))"

definition validate_secret :: "secret_kind \<Rightarrow> (validation_error, unit) result" where
  "validate_secret secret =
     (case secret of
        Password sealed \<Rightarrow> reject_if (sealed = []) SealedMaterialEmpty
      | PrivateKey sealed_key sealed_passphrase _ \<Rightarrow>
          reject_if (sealed_key = [] \<or> sealed_passphrase = Some []) SealedMaterialEmpty
      | Certificate sealed_cert sealed_key \<Rightarrow>
          reject_if (sealed_cert = [] \<or> sealed_key = []) SealedMaterialEmpty
      | External provider reference \<Rightarrow>
          reject_if (provider = [] \<or> reference = []) ExternalCredentialIncomplete
      | Agent _ \<Rightarrow> Inr ())"

definition validate_credential :: "credential_props \<Rightarrow> (validation_error, unit) result" where
  "validate_credential p =
     (let len = length (cr_username p) in
      if len > MAX_USERNAME_LEN then Inl (UsernameTooLong len MAX_USERNAME_LEN)
      else if list_ex is_control (cr_username p) then Inl IdentityControlChar
      else if (case cr_domain p of None \<Rightarrow> False | Some d \<Rightarrow> list_ex is_control d)
        then Inl IdentityControlChar
      else validate_secret (cr_secret p))"

definition validate_group :: "group_props \<Rightarrow> (validation_error, unit) result" where
  "validate_group p =
     (case g_layout p of
        Grid rows cols \<Rightarrow> if rows = 0 \<or> cols = 0 then Inl InvalidLayout else Inr ()
      | _ \<Rightarrow> Inr ())"

definition validate_icon :: "rstring option \<Rightarrow> (validation_error, unit) result" where
  "validate_icon icon =
     (case icon of
        None \<Rightarrow> Inr ()
      | Some i \<Rightarrow> if i = [] \<or> list_ex is_control i then Inl InvalidIcon else Inr ())"

definition validate_kind :: "node_kind \<Rightarrow> (validation_error, unit) result" where
  "validate_kind k =
     (case k of
        Folder p \<Rightarrow> validate_folder p
      | Connection p \<Rightarrow> validate_connection p
      | Credential p \<Rightarrow> validate_credential p
      | Group p \<Rightarrow> validate_group p
      | Separator \<Rightarrow> Inr ())"

definition validate_node :: "node \<Rightarrow> (validation_error, unit) result" where
  "validate_node n =
     and_then (validate_name (n_name n)) (\<lambda>_.
     and_then (reject_if (length (n_description n) > MAX_DESCRIPTION_LEN)
       (DescriptionTooLong (length (n_description n)) MAX_DESCRIPTION_LEN)) (\<lambda>_.
     and_then (try_each validate_tag (n_tags n)) (\<lambda>_.
     and_then (validate_icon (n_icon n)) (\<lambda>_.
     and_then (case n_colour n of None \<Rightarrow> Inr () | Some c \<Rightarrow> validate_colour c) (\<lambda>_.
     and_then (try_each validate_custom_field_key (map fst (n_custom_fields n))) (\<lambda>_.
     validate_kind (n_kind n)))))))"

abbreviation valid_node :: "node \<Rightarrow> bool" where
  "valid_node n \<equiv> validate_node n = Inr ()"

section \<open>Gateway chains: at most eight hops, all different\<close>

definition hop_ids :: "gateway_hop list \<Rightarrow> node_id list" where
  "hop_ids hops = map (\<lambda>h. ref_id (h_node h)) hops"

lemma hop_ids_simps [simp]:
  "hop_ids [] = []"
  "hop_ids (h # hops) = ref_id (h_node h) # hop_ids hops"
  "hop_ids (hops @ hops') = hop_ids hops @ hop_ids hops'"
  "length (hop_ids hops) = length hops"
  by (simp_all add: hop_ids_def)

lemma list_ex_hop_iff: "list_ex (\<lambda>h. ref_id (h_node h) = i) hops \<longleftrightarrow> i \<in> set (hop_ids hops)"
  by (induction hops) auto

lemma gateway_no_repeat_ok_iff:
  "gateway_no_repeat seen hops = Inr () \<longleftrightarrow>
     distinct (hop_ids hops) \<and> set (hop_ids hops) \<inter> set (hop_ids seen) = {}"
  by (induction seen hops rule: gateway_no_repeat.induct) (auto simp: list_ex_hop_iff)

lemma validate_gateway_chain_ok:
  "validate_gateway_chain chain = Inr () \<longleftrightarrow>
     length (gc_hops chain) \<le> MAX_GATEWAY_HOPS \<and> distinct (hop_ids (gc_hops chain))"
  by (auto simp: validate_gateway_chain_def gateway_no_repeat_ok_iff)

section \<open>Acceptance does not depend on the placement or on what references point at\<close>

text \<open>
  The tree changes a node's place, revision and times, and turns references into tombstones
  of the same target. None of it can make an accepted node unacceptable.
\<close>

lemma validate_node_placement [simp]:
  "validate_node (n\<lparr>n_id := i\<rparr>) = validate_node n"
  "validate_node (n\<lparr>n_parent_id := p\<rparr>) = validate_node n"
  "validate_node (n\<lparr>n_sort_order := so\<rparr>) = validate_node n"
  "validate_node (n\<lparr>n_created_at := ca\<rparr>) = validate_node n"
  "validate_node (n\<lparr>n_updated_at := ua\<rparr>) = validate_node n"
  "validate_node (n\<lparr>n_revision := rv\<rparr>) = validate_node n"
  "validate_node (n\<lparr>n_deleted_at := da\<rparr>) = validate_node n"
  by (simp_all add: validate_node_def)

lemma hop_ids_map_refs:
  assumes "\<And>r. ref_id (f r) = ref_id r"
  shows "hop_ids (map (hop_map_refs f) hops) = hop_ids hops"
  by (simp add: hop_ids_def hop_map_refs_def assms)

lemma validate_gateway_map_refs:
  assumes "\<And>r. ref_id (f r) = ref_id r"
  shows "validate_inherited_gateway (gateway_map_refs f g) = Inr ()
    \<longleftrightarrow> validate_inherited_gateway g = Inr ()"
  using hop_ids_map_refs [OF assms]
  by (auto simp: validate_inherited_gateway_def gateway_map_refs_def validate_gateway_chain_ok
      split: inherited.splits)

lemma validate_node_references_mut:
  assumes "\<And>r. ref_id (f r) = ref_id r"
  shows "valid_node (references_mut f n) \<longleftrightarrow> valid_node n"
  using validate_gateway_map_refs [OF assms]
  by (auto simp: validate_node_def references_mut_def validate_kind_def kind_map_refs_def
      validate_folder_def validate_connection_def validate_group_def result_simps
      split: node_kind.splits)

lemma validate_node_touch [simp]: "validate_node (node_touch now n) = validate_node n"
  by (simp add: node_touch_def)

end
