(* ===== verification/Resolve.thy ===== *)
theory Resolve
  imports Node
begin

text \<open>
  The resolver of \<open>crates/remoter-core/src/inherit.rs\<close>: the walk from a node towards the
  root that takes the first field that is not \<open>Inherit\<close>, and the walk for plain optional
  fields.
\<close>

section \<open>The walks\<close>

fun resolve_ancestors ::
  "node list \<Rightarrow> (node \<Rightarrow> 'a inherited option) \<Rightarrow> 'a option resolved" where
  "resolve_ancestors [] field = resolved_default_at_root None"
| "resolve_ancestors (a # as) field =
     (case field a of
        Some (Explicit v) \<Rightarrow> resolved_from_ancestor (n_id a) (Some v)
      | Some Default \<Rightarrow> resolved_default_at (n_id a) None
      | Some Inherit \<Rightarrow> resolve_ancestors as field
      | None \<Rightarrow> resolve_ancestors as field)"

definition resolve ::
  "node \<Rightarrow> node list \<Rightarrow> (node \<Rightarrow> 'a inherited option) \<Rightarrow> 'a option resolved" where
  "resolve n ancestors field =
     (case field n of
        Some (Explicit v) \<Rightarrow> resolved_own (n_id n) (Some v)
      | Some Default \<Rightarrow> resolved_default_at (n_id n) None
      | Some Inherit \<Rightarrow> resolve_ancestors ancestors field
      | None \<Rightarrow> resolve_ancestors ancestors field)"

fun resolve_optional_ancestors ::
  "node list \<Rightarrow> (node \<Rightarrow> 'a option) \<Rightarrow> 'a option resolved" where
  "resolve_optional_ancestors [] field = resolved_default_at_root None"
| "resolve_optional_ancestors (a # as) field =
     (case field a of
        Some v \<Rightarrow> resolved_from_ancestor (n_id a) (Some v)
      | None \<Rightarrow> resolve_optional_ancestors as field)"

definition resolve_optional_field ::
  "node \<Rightarrow> node list \<Rightarrow> (node \<Rightarrow> 'a option) \<Rightarrow> 'a option resolved" where
  "resolve_optional_field n ancestors field =
     (case field n of
        Some v \<Rightarrow> resolved_own (n_id n) (Some v)
      | None \<Rightarrow> resolve_optional_ancestors ancestors field)"

section \<open>What the walk returns\<close>

text \<open>A node settles a field when it sets it or pins the default.\<close>

definition settles :: "(node \<Rightarrow> 'a inherited option) \<Rightarrow> node \<Rightarrow> bool" where
  "settles field n \<longleftrightarrow> field n \<noteq> None \<and> field n \<noteq> Some Inherit"

lemma resolve_ancestors_find:
  "resolve_ancestors as field =
     (case find (settles field) as of
        None \<Rightarrow> resolved_default_at_root None
      | Some a \<Rightarrow>
          (case field a of
             Some (Explicit v) \<Rightarrow> resolved_from_ancestor (n_id a) (Some v)
           | _ \<Rightarrow> resolved_default_at (n_id a) None))"
  by (induction as) (auto simp: settles_def split: option.splits inherited.splits)

lemma resolve_skip:
  assumes "\<not> settles field n"
  shows "resolve n as field = resolve_ancestors as field"
  using assms by (auto simp: resolve_def settles_def split: option.splits inherited.splits)

lemma resolve_optional_ancestors_find:
  "resolve_optional_ancestors as field =
     (case find (\<lambda>a. field a \<noteq> None) as of
        None \<Rightarrow> resolved_default_at_root None
      | Some a \<Rightarrow> resolved_from_ancestor (n_id a) (field a))"
  by (induction as) (auto split: option.splits)

end
