(* ===== verification/Tree_Nav.thy ===== *)
theory Tree_Nav
  imports Validate_Node Resolve
begin

text \<open>
  \<open>crates/remoter-core/src/tree.rs\<close>, first part: the tree as its node table and child
  index, loading it from stored nodes, and navigating it. The loops that guard against a
  corrupted store (\<open>ancestors\<close>, \<open>descendants\<close>, \<open>subtree_height\<close>) are total functions that
  end on every tree, well-formed or not.
\<close>

section \<open>The tree\<close>

record tree_patch =
  p_inserted :: "node_id list"
  p_updated :: "node_id list"
  p_tombstoned :: "node_id list"
  p_resolution_changed :: "node_id list"

definition patch_default :: tree_patch where
  "patch_default =
     \<lparr>p_inserted = [], p_updated = [], p_tombstoned = [], p_resolution_changed = []\<rparr>"

definition rows_touched :: "tree_patch \<Rightarrow> nat" where
  "rows_touched p = length (p_inserted p) + length (p_updated p) + length (p_tombstoned p)"

definition patch_is_empty :: "tree_patch \<Rightarrow> bool" where
  "patch_is_empty p \<longleftrightarrow> rows_touched p = 0"

record tree =
  t_nodes :: "(node_id, node) hash_map"
  t_children :: "(node_id option, node_id list) hash_map"

definition tree_new :: tree where
  "tree_new = \<lparr>t_nodes = [], t_children = []\<rparr>"

definition into_nodes :: "tree \<Rightarrow> node list" where
  "into_nodes t = map snd (t_nodes t)"

definition tree_len :: "tree \<Rightarrow> nat" where
  "tree_len t = length (t_nodes t)"

definition tree_is_empty :: "tree \<Rightarrow> bool" where
  "tree_is_empty t \<longleftrightarrow> t_nodes t = []"

definition tree_get :: "tree \<Rightarrow> node_id \<Rightarrow> node option" where
  "tree_get t i = map_of (t_nodes t) i"

definition tree_contains :: "tree \<Rightarrow> node_id \<Rightarrow> bool" where
  "tree_contains t i \<longleftrightarrow> tree_get t i \<noteq> None"

definition tree_nodes :: "tree \<Rightarrow> node list" where
  "tree_nodes t = map snd (t_nodes t)"

definition children :: "tree \<Rightarrow> node_id option \<Rightarrow> node_id list" where
  "children t parent = (case map_of (t_children t) parent of None \<Rightarrow> [] | Some siblings \<Rightarrow> siblings)"

definition tree_roots :: "tree \<Rightarrow> node_id list" where
  "tree_roots t = children t None"

section \<open>The child index\<close>

definition sibling_key :: "tree \<Rightarrow> node_id \<Rightarrow> i64 \<times> node_id" where
  "sibling_key t i =
     ((case tree_get t i of None \<Rightarrow> i64_max | Some n \<Rightarrow> n_sort_order n), i)"

definition sort_siblings :: "node_id option \<Rightarrow> tree \<Rightarrow> tree" where
  "sort_siblings parent t =
     (case map_of (t_children t) parent of
        None \<Rightarrow> t
      | Some siblings \<Rightarrow>
          t\<lparr>t_children := AList.update parent (sort_key (sibling_key t) siblings)
                           (AList.delete parent (t_children t))\<rparr>)"

definition link :: "node_id option \<Rightarrow> node_id \<Rightarrow> tree \<Rightarrow> tree" where
  "link parent i t =
     sort_siblings parent (t\<lparr>t_children := AList.update parent (children t parent @ [i]) (t_children t)\<rparr>)"

definition unlink :: "node_id option \<Rightarrow> node_id \<Rightarrow> tree \<Rightarrow> tree" where
  "unlink parent i t =
     (case map_of (t_children t) parent of
        None \<Rightarrow> t
      | Some siblings \<Rightarrow>
          let kept = filter (\<lambda>s. s \<noteq> i) siblings in
          if kept = [] then t\<lparr>t_children := AList.delete parent (t_children t)\<rparr>
          else t\<lparr>t_children := AList.update parent kept (t_children t)\<rparr>)"

section \<open>Walking up\<close>

function ancestors_loop ::
  "tree \<Rightarrow> nat \<Rightarrow> node list \<Rightarrow> node_id option \<Rightarrow> (core_error, node list) result" where
  "ancestors_loop t limit out cursor =
     (case cursor of
        None \<Rightarrow> Inr out
      | Some parent_id \<Rightarrow>
          if length out \<ge> limit then Inl CorruptTree
          else
            (case tree_get t parent_id of
               None \<Rightarrow> Inl (ParentNotFound parent_id)
             | Some parent \<Rightarrow> ancestors_loop t limit (out @ [parent]) (n_parent_id parent)))"
  by pat_completeness auto
termination
  by (relation "measure (\<lambda>(t, limit, out, cursor). limit - length out)") auto

declare ancestors_loop.simps [simp del]

definition ancestors :: "tree \<Rightarrow> node_id \<Rightarrow> (core_error, node list) result" where
  "ancestors t i =
     and_then (ok_or (NodeNotFound i) (tree_get t i))
       (\<lambda>start. ancestors_loop t (length (t_nodes t)) [] (n_parent_id start))"

definition path_to_root :: "tree \<Rightarrow> node_id \<Rightarrow> (core_error, node_id list) result" where
  "path_to_root t i = and_then (ancestors t i) (\<lambda>as. Inr (i # map n_id as))"

definition depth :: "tree \<Rightarrow> node_id \<Rightarrow> (core_error, nat) result" where
  "depth t i = and_then (ancestors t i) (\<lambda>as. Inr (length as + 1))"

definition is_ancestor_of :: "tree \<Rightarrow> node_id \<Rightarrow> node_id \<Rightarrow> (core_error, bool) result" where
  "is_ancestor_of t ancestor i =
     and_then (ancestors t i) (\<lambda>as. Inr (list_ex (\<lambda>n. n_id n = ancestor) as))"

section \<open>Walking down\<close>

text \<open>Every id that occurs in the child index, in whatever list.\<close>

definition indexed_ids :: "tree \<Rightarrow> node_id set" where
  "indexed_ids t = \<Union> (set ` snd ` set (t_children t))"

lemma finite_indexed_ids [simp]: "finite (indexed_ids t)"
  by (simp add: indexed_ids_def)

lemma set_children_indexed: "set (children t p) \<subseteq> indexed_ids t"
  by (cases "map_of (t_children t) p")
    (auto simp: children_def indexed_ids_def dest: map_of_SomeD intro!: bexI [where x = "(p, _)"])

text \<open>
  The depth-first walk of \<open>descendants\<close>. The code pops the end of a vector and pushes the
  children reversed; here the head of the list is the top of the stack, so the children go
  in front in display order.
\<close>

function descendants_loop ::
  "tree \<Rightarrow> node_id set \<Rightarrow> node_id list \<Rightarrow> node_id list \<Rightarrow> (core_error, node_id list) result" where
  "descendants_loop t seen out stack =
     (case stack of
        [] \<Rightarrow> Inr out
      | current # stack' \<Rightarrow>
          if current \<in> seen then Inl CorruptTree
          else descendants_loop t (insert current seen) (out @ [current])
                 (children t (Some current) @ stack'))"
  by pat_completeness auto
termination
proof (relation "measure (\<lambda>(t, seen, out, stack). card ((indexed_ids t \<union> set stack) - seen))",
    goal_cases)
  case 1
  show ?case by simp
next
  case (2 t seen out stack current stack')
  let ?new = "(indexed_ids t \<union> set (children t (Some current) @ stack')) - insert current seen"
  have "?new \<subseteq> (indexed_ids t \<union> set stack) - seen - {current}"
    using 2 set_children_indexed [of t "Some current"] by auto
  moreover have "current \<in> (indexed_ids t \<union> set stack) - seen"
    using 2 by simp
  ultimately have "card ?new < card ((indexed_ids t \<union> set stack) - seen)"
    by (intro psubset_card_mono) auto
  then show ?case by simp
qed

declare descendants_loop.simps [simp del]

definition descendants :: "tree \<Rightarrow> node_id \<Rightarrow> (core_error, node_id list) result" where
  "descendants t i =
     (if \<not> tree_contains t i then Inl (NodeNotFound i)
      else descendants_loop t {} [] (children t (Some i)))"

definition subtree :: "tree \<Rightarrow> node_id \<Rightarrow> (core_error, node_id list) result" where
  "subtree t i = and_then (descendants t i) (\<lambda>ds. Inr (i # ds))"

text \<open>
  One level of the breadth-first walk of \<open>subtree_height\<close>: the children of every node of the
  level, refusing a node that was seen before. The two nested \<open>for\<close> loops visit exactly the
  concatenation of the child lists.
\<close>

fun scan_level :: "node_id set \<Rightarrow> node_id list \<Rightarrow> node_id list
    \<Rightarrow> (core_error, node_id set \<times> node_id list) result" where
  "scan_level seen next [] = Inr (seen, next)"
| "scan_level seen next (child # rest) =
     (if child \<in> seen then Inl CorruptTree
      else scan_level (insert child seen) (next @ [child]) rest)"

definition level_children :: "tree \<Rightarrow> node_id list \<Rightarrow> node_id list" where
  "level_children t level = concat (map (\<lambda>p. children t (Some p)) level)"

lemma set_level_children: "set (level_children t level) = (\<Union>p\<in>set level. set (children t (Some p)))"
  by (simp add: level_children_def)

lemma scan_level_Inr_iff:
  "scan_level seen next cs = Inr (seen', next') \<longleftrightarrow>
     distinct cs \<and> set cs \<inter> seen = {} \<and> seen' = seen \<union> set cs \<and> next' = next @ cs"
  by (induction seen "next" cs rule: scan_level.induct) auto

function height_loop ::
  "tree \<Rightarrow> node_id set \<Rightarrow> nat \<Rightarrow> node_id list \<Rightarrow> (core_error, nat) result" where
  "height_loop t seen height level =
     (case scan_level seen [] (level_children t level) of
        Inl e \<Rightarrow> Inl e
      | Inr (seen', next) \<Rightarrow>
          if next = [] then Inr height
          else height_loop t seen' (height + 1) next)"
  by pat_completeness auto
termination
proof (relation "measure (\<lambda>(t, seen, height, level). card (indexed_ids t - seen))", goal_cases)
  case 1
  show ?case by simp
next
  case (2 t seen height level r seen' "next")
  from 2 have new: "set next \<inter> seen = {}" "seen' = seen \<union> set next" "next = level_children t level"
    by (auto simp: scan_level_Inr_iff)
  have "set next \<subseteq> indexed_ids t"
    using set_children_indexed by (auto simp: new(3) set_level_children)
  moreover obtain c where "c \<in> set next" using 2 by (cases "next") auto
  ultimately have "indexed_ids t - seen' \<subset> indexed_ids t - seen"
    using new by blast
  then have "card (indexed_ids t - seen') < card (indexed_ids t - seen)"
    by (intro psubset_card_mono) auto
  then show ?case by simp
qed

declare height_loop.simps [simp del]

definition subtree_height :: "tree \<Rightarrow> node_id \<Rightarrow> (core_error, nat) result" where
  "subtree_height t i = height_loop t {i} 1 [i]"

section \<open>Loading\<close>

fun load_nodes :: "node list \<Rightarrow> (node_id, node) hash_map
    \<Rightarrow> (core_error, (node_id, node) hash_map) result" where
  "load_nodes [] m = Inr m"
| "load_nodes (n # ns) m =
     and_then (from_validation (validate_node n)) (\<lambda>_.
       if map_of m (n_id n) \<noteq> None then Inl (DuplicateNodeId (n_id n))
       else load_nodes ns (AList.update (n_id n) n m))"

fun place_nodes :: "(node_id \<times> node_id option) list \<Rightarrow> tree \<Rightarrow> (core_error, tree) result" where
  "place_nodes [] t = Inr t"
| "place_nodes ((i, parent) # rest) t =
     and_then
       (case parent of
          None \<Rightarrow> Inr ()
        | Some parent_id \<Rightarrow>
            and_then (ok_or (ParentNotFound parent_id) (tree_get t parent_id)) (\<lambda>parent_node.
              if \<not> is_container (n_kind parent_node) then Inl (NotAContainer parent_id)
              else Inr ()))
       (\<lambda>_. place_nodes rest
          (t\<lparr>t_children := AList.update parent (children t parent @ [i]) (t_children t)\<rparr>))"

definition from_nodes :: "node list \<Rightarrow> (core_error, tree) result" where
  "from_nodes ns =
     and_then (load_nodes ns []) (\<lambda>m.
     and_then (place_nodes (map (\<lambda>n. (n_id n, n_parent_id n)) (map snd m))
                 \<lparr>t_nodes = m, t_children = []\<rparr>) (\<lambda>placed.
     let t = fold sort_siblings (map fst (t_children placed)) placed in
     and_then (try_each
                 (\<lambda>i. and_then (depth t i)
                    (\<lambda>d. if d > MAX_TREE_DEPTH then Inl (DepthExceeded d) else Inr ()))
                 (map fst (t_nodes t)))
       (\<lambda>_. Inr t)))"

end
