(* ===== verification/Tree_Edit.thy ===== *)
theory Tree_Edit
  imports Tree_Nav
begin

text \<open>
  \<open>crates/remoter-core/src/tree.rs\<close>, second part: the operations that change the tree. A
  method on \<open>&mut self\<close> returns its result paired with the tree it leaves behind, so that a
  failure after a mutation would be visible.
\<close>

section \<open>Insert and update\<close>

text \<open>The checks of \<open>insert\<close>, in the order the code makes them, before it changes anything.\<close>

definition insert_guard :: "node \<Rightarrow> tree \<Rightarrow> (core_error, unit) result" where
  "insert_guard n t =
     and_then (from_validation (validate_node n)) (\<lambda>_.
       if tree_contains t (n_id n) then Inl (DuplicateNodeId (n_id n))
       else
         (case n_parent_id n of
            None \<Rightarrow> Inr ()
          | Some parent_id \<Rightarrow>
              and_then (ok_or (ParentNotFound parent_id) (tree_get t parent_id)) (\<lambda>parent.
              if \<not> is_container (n_kind parent) then Inl (NotAContainer parent_id)
              else and_then (depth t parent_id) (\<lambda>d.
                if d + 1 > MAX_TREE_DEPTH then Inl (DepthExceeded (d + 1)) else Inr ()))))"

definition tree_insert :: "node \<Rightarrow> tree \<Rightarrow> (core_error, tree_patch) result \<times> tree" where
  "tree_insert n t =
     (case insert_guard n t of
        Inl e \<Rightarrow> (Inl e, t)
      | Inr _ \<Rightarrow>
          (Inr (patch_default\<lparr>p_inserted := [n_id n]\<rparr>),
           link (n_parent_id n) (n_id n) (t\<lparr>t_nodes := AList.update (n_id n) n (t_nodes t)\<rparr>)))"

text \<open>The node as \<open>update\<close> stores it.\<close>

definition update_stored :: "node \<Rightarrow> node \<Rightarrow> node" where
  "update_stored existing n =
     n\<lparr>n_revision := saturating_add (n_revision existing) 1,
       n_created_at := n_created_at existing,
       n_updated_at := max (n_updated_at n) (n_updated_at existing)\<rparr>"

definition update_guard :: "node \<Rightarrow> tree \<Rightarrow> (core_error, node) result" where
  "update_guard n t =
     and_then (from_validation (validate_node n)) (\<lambda>_.
     and_then (ok_or (NodeNotFound (n_id n)) (tree_get t (n_id n))) (\<lambda>existing.
       if n_parent_id existing \<noteq> n_parent_id n then Inl (ParentChanged (n_id n))
       else Inr existing))"

text \<open>Storing the node, and re-sorting its siblings when its sort order changed.\<close>

definition update_store :: "node \<Rightarrow> node \<Rightarrow> tree \<Rightarrow> tree" where
  "update_store existing n t =
     (let t1 = t\<lparr>t_nodes := AList.update (n_id n) (update_stored existing n) (t_nodes t)\<rparr>
      in if n_sort_order existing \<noteq> n_sort_order n then sort_siblings (n_parent_id n) t1 else t1)"

definition tree_update :: "node \<Rightarrow> tree \<Rightarrow> (core_error, tree_patch) result \<times> tree" where
  "tree_update n t =
     (case update_guard n t of
        Inl e \<Rightarrow> (Inl e, t)
      | Inr existing \<Rightarrow>
          let t' = update_store existing n t
          in (case (if inheritance_differs existing n then subtree t' (n_id n)
                    else Inr [n_id n]) of
                Inl e \<Rightarrow> (Inl e, t')
              | Inr changed \<Rightarrow>
                  (Inr (patch_default\<lparr>p_updated := [n_id n], p_resolution_changed := changed\<rparr>), t')))"

section \<open>Move\<close>

definition attached_credentials :: "tree \<Rightarrow> node_id \<Rightarrow> node_id list" where
  "attached_credentials t i =
     sort (map n_id (filter
       (\<lambda>n. case as_credential (n_kind n) of None \<Rightarrow> False | Some props \<Rightarrow> belongs_to props i)
       (tree_nodes t)))"

definition check_new_parent :: "tree \<Rightarrow> node_id \<Rightarrow> node_id option \<Rightarrow> (core_error, unit) result" where
  "check_new_parent t i new_parent =
     (case new_parent of
        None \<Rightarrow> Inr ()
      | Some parent_id \<Rightarrow>
          if parent_id = i then Inl (Cycle i parent_id)
          else if \<not> tree_contains t parent_id then Inl (ParentNotFound parent_id)
          else and_then (path_to_root t parent_id) (\<lambda>path.
            if i \<in> set path then Inl (Cycle i parent_id)
            else and_then (ok_or (ParentNotFound parent_id) (tree_get t parent_id)) (\<lambda>parent.
              if \<not> is_container (n_kind parent) then Inl (NotAContainer parent_id) else Inr ())))"

definition preview_move ::
  "tree \<Rightarrow> node_id \<Rightarrow> node_id option \<Rightarrow> (core_error, tree_patch) result" where
  "preview_move t i new_parent =
     (if \<not> tree_contains t i then Inl (NodeNotFound i)
      else
        and_then (check_new_parent t i new_parent) (\<lambda>_.
        and_then (case new_parent of Some parent_id \<Rightarrow> depth t parent_id | None \<Rightarrow> Inr 0)
          (\<lambda>parent_depth.
        and_then (subtree_height t i) (\<lambda>height.
          if parent_depth + height > MAX_TREE_DEPTH
          then Inl (DepthExceeded (parent_depth + height))
          else and_then (subtree t i) (\<lambda>moved. Inr
            (patch_default\<lparr>p_updated := i # attached_credentials t i,
                           p_resolution_changed := moved\<rparr>))))))"

text \<open>Taking one node from where it is to \<open>new_parent\<close>.\<close>

definition place_node :: "node_id option \<Rightarrow> i64 \<Rightarrow> node \<Rightarrow> node" where
  "place_node new_parent order n =
     n\<lparr>n_parent_id := new_parent, n_sort_order := order,
       n_revision := saturating_add (n_revision n) 1\<rparr>"

definition relocate ::
  "node_id option \<Rightarrow> node_id option \<Rightarrow> i64 \<Rightarrow> node_id \<Rightarrow> tree \<Rightarrow> tree" where
  "relocate old_parent new_parent order i t =
     (let t1 = unlink old_parent i t;
          t2 = t1\<lparr>t_nodes := hm_modify i (place_node new_parent order) (t_nodes t1)\<rparr>
      in link new_parent i t2)"

definition relocate_attached :: "node_id option \<Rightarrow> i64 \<Rightarrow> node_id \<Rightarrow> tree \<Rightarrow> tree" where
  "relocate_attached new_parent order attached t =
     relocate (case tree_get t attached of None \<Rightarrow> None | Some n \<Rightarrow> n_parent_id n)
       new_parent order attached t"

definition move_node ::
  "node_id \<Rightarrow> node_id option \<Rightarrow> i64 \<Rightarrow> tree \<Rightarrow> (core_error, tree_patch) result \<times> tree" where
  "move_node i new_parent order t =
     (case and_then (preview_move t i new_parent) (\<lambda>patch.
             and_then (ok_or (NodeNotFound i) (tree_get t i)) (\<lambda>n. Inr (patch, n_parent_id n)))
      of
        Inl e \<Rightarrow> (Inl e, t)
      | Inr (patch, old_parent) \<Rightarrow>
          let t1 = relocate old_parent new_parent order i t
          in (Inr patch, fold (relocate_attached new_parent order) (attached_credentials t1 i) t1))"

section \<open>Soft delete\<close>

definition tombstone_credential_field ::
  "(node_id, rstring) hash_map \<Rightarrow> credential_ref inherited \<Rightarrow> bool \<times> credential_ref inherited" where
  "tombstone_credential_field deleted field =
     (case field of
        Explicit credential \<Rightarrow>
          (case map_of deleted (credential_ref_id credential) of
             Some nm \<Rightarrow> (case credential_ref_tombstone nm credential of (ch, c') \<Rightarrow> (ch, Explicit c'))
           | None \<Rightarrow> (False, field))
      | _ \<Rightarrow> (False, field))"

definition tombstone_hop ::
  "(node_id, rstring) hash_map \<Rightarrow> gateway_hop \<Rightarrow> bool \<times> gateway_hop" where
  "tombstone_hop deleted hop =
     (case (case map_of deleted (ref_id (h_node hop)) of
              Some nm \<Rightarrow> ref_tombstone nm (h_node hop)
            | None \<Rightarrow> (False, h_node hop)) of
        (ch1, node') \<Rightarrow>
          (case (case h_credential hop of
                   None \<Rightarrow> (False, None)
                 | Some credential \<Rightarrow>
                     (case map_of deleted (credential_ref_id credential) of
                        Some nm \<Rightarrow>
                          (case credential_ref_tombstone nm credential of (ch, c') \<Rightarrow> (ch, Some c'))
                      | None \<Rightarrow> (False, Some credential))) of
             (ch2, credential') \<Rightarrow>
               (ch1 \<or> ch2, \<lparr>h_node = node', h_credential = credential'\<rparr>)))"

fun tombstone_list :: "('a \<Rightarrow> bool \<times> 'a) \<Rightarrow> 'a list \<Rightarrow> bool \<times> 'a list" where
  "tombstone_list f [] = (False, [])"
| "tombstone_list f (x # xs) =
     (case f x of (ch, x') \<Rightarrow> case tombstone_list f xs of (chs, xs') \<Rightarrow> (ch \<or> chs, x' # xs'))"

definition tombstone_gateway_field ::
  "(node_id, rstring) hash_map \<Rightarrow> gateway_chain inherited \<Rightarrow> bool \<times> gateway_chain inherited" where
  "tombstone_gateway_field deleted field =
     (case field of
        Explicit chain \<Rightarrow>
          (case tombstone_list (tombstone_hop deleted) (gc_hops chain) of
             (ch, hops) \<Rightarrow> (ch, Explicit (chain\<lparr>gc_hops := hops\<rparr>)))
      | _ \<Rightarrow> (False, field))"

definition tombstone_member ::
  "(node_id, rstring) hash_map \<Rightarrow> node_ref \<Rightarrow> bool \<times> node_ref" where
  "tombstone_member deleted member =
     (case map_of deleted (ref_id member) of
        Some nm \<Rightarrow> ref_tombstone nm member
      | None \<Rightarrow> (False, member))"

definition tombstone_refs :: "(node_id, rstring) hash_map \<Rightarrow> node \<Rightarrow> bool \<times> node" where
  "tombstone_refs deleted n =
     (case n_kind n of
        Folder p \<Rightarrow>
          (case tombstone_credential_field deleted (f_credential p) of (ch1, c) \<Rightarrow>
           case tombstone_gateway_field deleted (f_gateway p) of (ch2, g) \<Rightarrow>
             (ch1 \<or> ch2, n\<lparr>n_kind := Folder (p\<lparr>f_credential := c, f_gateway := g\<rparr>)\<rparr>))
      | Connection p \<Rightarrow>
          (case tombstone_credential_field deleted (c_credential p) of (ch1, c) \<Rightarrow>
           case tombstone_gateway_field deleted (c_gateway p) of (ch2, g) \<Rightarrow>
             (ch1 \<or> ch2, n\<lparr>n_kind := Connection (p\<lparr>c_credential := c, c_gateway := g\<rparr>)\<rparr>))
      | Group p \<Rightarrow>
          (case tombstone_list (tombstone_member deleted) (g_members p) of (ch, ms) \<Rightarrow>
             (ch, n\<lparr>n_kind := Group (p\<lparr>g_members := ms\<rparr>)\<rparr>))
      | Credential _ \<Rightarrow> (False, n)
      | Separator \<Rightarrow> (False, n))"

text \<open>The credentials outside the subtree that belong to a node inside it.\<close>

definition attached_outside :: "tree \<Rightarrow> node_id list \<Rightarrow> node_id list" where
  "attached_outside t owners =
     filter (\<lambda>i. i \<notin> set owners)
       (map n_id (filter
         (\<lambda>n. case as_credential (n_kind n) of
                None \<Rightarrow> False
              | Some props \<Rightarrow>
                  (case cr_attached_to props of None \<Rightarrow> False | Some owner \<Rightarrow> owner \<in> set owners))
         (tree_nodes t)))"

definition deleted_names :: "tree \<Rightarrow> node_id list \<Rightarrow> (node_id, rstring) hash_map" where
  "deleted_names t ids =
     List.map_filter (\<lambda>i. map_option (\<lambda>n. (n_id n, n_name n)) (tree_get t i)) ids"

fun tombstone_loop :: "i64 \<Rightarrow> node_id list \<Rightarrow> (node_id, node) hash_map
    \<Rightarrow> node_id list \<times> (node_id, node) hash_map" where
  "tombstone_loop now [] m = ([], m)"
| "tombstone_loop now (i # is) m =
     (case map_of m i of
        Some n \<Rightarrow>
          if n_deleted_at n = None
          then (case tombstone_loop now is
                       (hm_modify i (\<lambda>_. node_touch now (n\<lparr>n_deleted_at := Some now\<rparr>)) m) of
                  (done, m') \<Rightarrow> (i # done, m'))
          else tombstone_loop now is m
      | None \<Rightarrow> tombstone_loop now is m)"

fun untarget_loop :: "i64 \<Rightarrow> (node_id, rstring) hash_map \<Rightarrow> node_id list
    \<Rightarrow> (node_id, node) hash_map \<Rightarrow> node_id list \<times> (node_id, node) hash_map" where
  "untarget_loop now deleted [] m = ([], m)"
| "untarget_loop now deleted (i # is) m =
     (case map_of m i of
        None \<Rightarrow> untarget_loop now deleted is m
      | Some n \<Rightarrow>
          (case tombstone_refs deleted n of
             (True, n') \<Rightarrow>
               (case untarget_loop now deleted is (hm_modify i (\<lambda>_. node_touch now n') m) of
                  (done, m') \<Rightarrow> (i # done, m'))
           | (False, n') \<Rightarrow> untarget_loop now deleted is (hm_modify i (\<lambda>_. n') m)))"

definition soft_delete :: "node_id \<Rightarrow> i64 \<Rightarrow> tree \<Rightarrow> (core_error, tree_patch) result \<times> tree" where
  "soft_delete i now t =
     (case subtree t i of
        Inl e \<Rightarrow> (Inl e, t)
      | Inr owners \<Rightarrow>
          let doomed = owners @ attached_outside t owners;
              deleted = deleted_names t doomed;
              (tombstoned, m1) = tombstone_loop now doomed (t_nodes t);
              others = filter (\<lambda>j. map_of deleted j = None) (map fst m1);
              (updated, m2) = untarget_loop now deleted others m1
          in (Inr (patch_default\<lparr>p_tombstoned := tombstoned, p_updated := sort updated\<rparr>),
              t\<lparr>t_nodes := m2\<rparr>))"

end
