(* ===== verification/Tree_Resolve.thy ===== *)
theory Tree_Resolve
  imports Tree_Edit
begin

text \<open>
  \<open>crates/remoter-core/src/tree.rs\<close>, third part: resolving inherited fields against the
  tree, flattening a connection, merging protocol settings, and detaching a node from its
  place.
\<close>

section \<open>Looking fields up\<close>

definition credential_props :: "tree \<Rightarrow> credential_ref \<Rightarrow> credential_props option" where
  "credential_props t reference =
     (if credential_ref_is_deleted reference then None
      else Option.bind (tree_get t (credential_ref_id reference)) (\<lambda>n. as_credential (n_kind n)))"

definition resolve_optional ::
  "tree \<Rightarrow> node_id \<Rightarrow> (node \<Rightarrow> 'a inherited option) \<Rightarrow> (core_error, 'a option resolved) result" where
  "resolve_optional t i field =
     and_then (ok_or (NodeNotFound i) (tree_get t i)) (\<lambda>n.
     and_then (ancestors t i) (\<lambda>as. Inr (resolve n as field)))"

text \<open>\<open>unwrap_or_default\<close>, with the type's default as an argument.\<close>

definition unwrap_or_default :: "'a \<Rightarrow> 'a option \<Rightarrow> 'a" where
  "unwrap_or_default d v = (case v of None \<Rightarrow> d | Some x \<Rightarrow> x)"

definition resolve_default ::
  "'a \<Rightarrow> tree \<Rightarrow> node_id \<Rightarrow> (node \<Rightarrow> 'a inherited option) \<Rightarrow> (core_error, 'a resolved) result" where
  "resolve_default d t i field =
     and_then (resolve_optional t i field) (\<lambda>r. Inr (resolved_map (unwrap_or_default d) r))"

section \<open>Merging protocol settings\<close>

definition merge_from_ancestor ::
  "node \<Rightarrow> (rstring, rstring resolved) btree_map \<Rightarrow> (rstring, rstring resolved) btree_map" where
  "merge_from_ancestor a merged =
     (case settings_field a of
        None \<Rightarrow> merged
      | Some settings \<Rightarrow>
          fold (\<lambda>(key, value). btree_insert key (resolved_from_ancestor (n_id a) value)) settings merged)"

definition merge_settings :: "node \<Rightarrow> node list \<Rightarrow> (rstring, rstring resolved) btree_map" where
  "merge_settings n as =
     (let merged = fold merge_from_ancestor (rev as) [] in
      case settings_field n of
        None \<Rightarrow> merged
      | Some settings \<Rightarrow>
          fold (\<lambda>(key, value). btree_insert key (resolved_own (n_id n) value)) settings merged)"

fun add_missing :: "(rstring \<times> rstring) list \<Rightarrow> protocol_settings
    \<Rightarrow> (validation_error, protocol_settings) result" where
  "add_missing [] settings = Inr settings"
| "add_missing ((key, value) # rest) settings =
     (if \<not> settings_contains_key key settings
      then and_then (settings_insert key value settings) (\<lambda>(_, settings'). add_missing rest settings')
      else add_missing rest settings)"

fun merge_ancestor_settings ::
  "node list \<Rightarrow> protocol_settings \<Rightarrow> (core_error, protocol_settings) result" where
  "merge_ancestor_settings [] settings = Inr settings"
| "merge_ancestor_settings (a # as) settings =
     (case settings_field a of
        None \<Rightarrow> merge_ancestor_settings as settings
      | Some inherited \<Rightarrow>
          and_then (from_validation (add_missing inherited settings)) (merge_ancestor_settings as))"

section \<open>Effective connections\<close>

text \<open>The body of \<open>effective_connection\<close> once the node and its ancestors are at hand.\<close>

definition flatten :: "tree \<Rightarrow> node_id \<Rightarrow> node \<Rightarrow> connection_props \<Rightarrow> node list \<Rightarrow> effective_connection" where
  "flatten t i n conn as =
     (let port = resolved_map
            (\<lambda>v. case v of None \<Rightarrow> default_port (c_protocol conn) | Some p \<Rightarrow> Some p)
            (resolve n as port_field);
          credential = resolve n as credential_field;
          props = Option.bind (r_value credential) (credential_props t);
          username = resolved_new (map_option cr_username props) (r_provenance credential);
          attached = (case props of None \<Rightarrow> False | Some p \<Rightarrow> belongs_to p i)
      in
        \<lparr>e_node = i, e_name = n_name n, e_protocol = c_protocol conn, e_host = c_host conn,
         e_port = port, e_credential = credential, e_username = username,
         e_credential_attached = attached,
         e_gateway = resolved_map (unwrap_or_default gateway_direct) (resolve n as gateway_field),
         e_connect_timeout_ms = resolve n as connect_timeout_field,
         e_keepalive_secs = resolve n as keepalive_field,
         e_settings = merge_settings n as,
         e_on_connect = resolved_map (unwrap_or_default []) (resolve n as on_connect_field),
         e_on_disconnect = resolved_map (unwrap_or_default []) (resolve n as on_disconnect_field),
         e_recording = resolved_map (unwrap_or_default recording_policy_default)
                         (resolve n as recording_field),
         e_auto_reconnect = resolved_map (unwrap_or_default reconnect_policy_default)
                              (resolve n as auto_reconnect_field),
         e_icon = resolve_optional_field n as icon_field,
         e_colour = resolve_optional_field n as colour_field\<rparr>)"

definition effective_connection :: "tree \<Rightarrow> node_id \<Rightarrow> (core_error, effective_connection) result" where
  "effective_connection t i =
     and_then (ok_or (NodeNotFound i) (tree_get t i)) (\<lambda>n.
     and_then (ok_or (NotAConnection i) (as_connection (n_kind n))) (\<lambda>conn.
     and_then (ancestors t i) (\<lambda>as. Inr (flatten t i n conn as))))"

section \<open>Detaching\<close>

definition pin ::
  "node \<Rightarrow> node list \<Rightarrow> (node \<Rightarrow> 'a inherited option) \<Rightarrow> 'a inherited \<Rightarrow> 'a inherited" where
  "pin original as get field =
     (if \<not> is_inherit field then field
      else
        let resolved = resolve original as get in
        (case (r_provenance resolved, r_value resolved) of
           (Ancestor _, Some value) \<Rightarrow> Explicit value
         | (DefaultAt _, _) \<Rightarrow> Default
         | _ \<Rightarrow> field))"

definition pin_folder :: "node \<Rightarrow> node list \<Rightarrow> folder_props \<Rightarrow> folder_props" where
  "pin_folder original as p =
     p\<lparr>f_port := pin original as port_field (f_port p),
       f_credential := pin original as credential_field (f_credential p),
       f_gateway := pin original as gateway_field (f_gateway p),
       f_connect_timeout_ms := pin original as connect_timeout_field (f_connect_timeout_ms p),
       f_keepalive_secs := pin original as keepalive_field (f_keepalive_secs p),
       f_on_connect := pin original as on_connect_field (f_on_connect p),
       f_on_disconnect := pin original as on_disconnect_field (f_on_disconnect p),
       f_recording := pin original as recording_field (f_recording p),
       f_auto_reconnect := pin original as auto_reconnect_field (f_auto_reconnect p)\<rparr>"

definition pin_connection :: "node \<Rightarrow> node list \<Rightarrow> connection_props \<Rightarrow> connection_props" where
  "pin_connection original as p =
     p\<lparr>c_port := pin original as port_field (c_port p),
       c_credential := pin original as credential_field (c_credential p),
       c_gateway := pin original as gateway_field (c_gateway p),
       c_connect_timeout_ms := pin original as connect_timeout_field (c_connect_timeout_ms p),
       c_keepalive_secs := pin original as keepalive_field (c_keepalive_secs p),
       c_on_connect := pin original as on_connect_field (c_on_connect p),
       c_on_disconnect := pin original as on_disconnect_field (c_on_disconnect p),
       c_recording := pin original as recording_field (c_recording p),
       c_auto_reconnect := pin original as auto_reconnect_field (c_auto_reconnect p)\<rparr>"

fun find_map :: "('a \<Rightarrow> 'b option) \<Rightarrow> 'a list \<Rightarrow> 'b option" where
  "find_map f [] = None"
| "find_map f (x # xs) = (case f x of None \<Rightarrow> find_map f xs | Some y \<Rightarrow> Some y)"

definition detach_kind :: "node \<Rightarrow> node list \<Rightarrow> node_kind \<Rightarrow> (core_error, node_kind) result" where
  "detach_kind original as k =
     (case k of
        Folder p \<Rightarrow>
          and_then (merge_ancestor_settings as (f_settings p)) (\<lambda>s.
            Inr (Folder ((pin_folder original as p)\<lparr>f_settings := s\<rparr>)))
      | Connection p \<Rightarrow>
          and_then (merge_ancestor_settings as (c_settings p)) (\<lambda>s.
            Inr (Connection ((pin_connection original as p)\<lparr>c_settings := s\<rparr>)))
      | Credential p \<Rightarrow> Inr (Credential p)
      | Group p \<Rightarrow> Inr (Group p)
      | Separator \<Rightarrow> Inr Separator)"

definition detached :: "tree \<Rightarrow> node_id \<Rightarrow> (core_error, node) result" where
  "detached t i =
     and_then (ok_or (NodeNotFound i) (tree_get t i)) (\<lambda>original.
     and_then (ancestors t i) (\<lambda>as.
     and_then (detach_kind original as (n_kind original)) (\<lambda>k.
       Inr (original\<lparr>n_parent_id := None, n_kind := k,
              n_icon := (case n_icon original of None \<Rightarrow> find_map n_icon as | Some x \<Rightarrow> Some x),
              n_colour := (case n_colour original of None \<Rightarrow> find_map n_colour as | Some x \<Rightarrow> Some x)\<rparr>))))"

end
