(* ===== verification/Tree_Refs.thy ===== *)
theory Tree_Refs
  imports Tree_Resolve
begin

text \<open>
  \<open>crates/remoter-core/src/tree.rs\<close>, fourth part: the checks that need the whole tree, the
  nodes that refer to a node, and giving a set of nodes new identities.
\<close>

section \<open>Checking references\<close>

definition check_attachment ::
  "tree \<Rightarrow> node_id \<Rightarrow> Node.credential_props \<Rightarrow> (validation_error, unit) result" where
  "check_attachment t credential props =
     (case cr_attached_to props of
        None \<Rightarrow> Inr ()
      | Some connection \<Rightarrow>
          (case tree_get t connection of
             None \<Rightarrow> Inl (CredentialAttachmentUnknown credential connection)
           | Some owner \<Rightarrow>
               if as_connection (n_kind owner) = None
               then Inl (CredentialAttachmentNotAConnection credential connection)
               else Inr ()))"

definition check_credential ::
  "tree \<Rightarrow> credential_ref \<Rightarrow> protocol_id option \<Rightarrow> node_id \<Rightarrow> (validation_error, unit) result" where
  "check_credential t credential protocol referrer =
     (if credential_ref_is_deleted credential then Inr ()
      else
        and_then (ok_or (CredentialUnknown (credential_ref_id credential))
                    (tree_get t (credential_ref_id credential))) (\<lambda>target.
        and_then (ok_or (CredentialNotACredential (credential_ref_id credential))
                    (as_credential (n_kind target))) (\<lambda>props.
        and_then
          (case cr_attached_to props of
             None \<Rightarrow> Inr ()
           | Some owner \<Rightarrow>
               if owner \<noteq> referrer
               then Inl (CredentialAttachedElsewhere (credential_ref_id credential) owner)
               else Inr ()) (\<lambda>_.
        (case protocol of
           None \<Rightarrow> Inr ()
         | Some p \<Rightarrow>
             if \<not> permits props p then Inl (CredentialPurpose (credential_ref_id credential) p)
             else Inr ())))))"

definition check_hop :: "tree \<Rightarrow> node_id \<Rightarrow> gateway_hop \<Rightarrow> (validation_error, unit) result" where
  "check_hop t owner hop =
     (let hop_id = ref_id (h_node hop) in
      if hop_id = owner then Inl (GatewayCycle hop_id)
      else if ref_is_deleted (h_node hop) then Inr ()
      else
        and_then (ok_or (GatewayHopUnknown hop_id) (tree_get t hop_id)) (\<lambda>target.
        and_then (ok_or (GatewayHopNotAConnection hop_id) (as_connection (n_kind target))) (\<lambda>hop_conn.
        (case h_credential hop of
           None \<Rightarrow> Inr ()
         | Some credential \<Rightarrow> check_credential t credential (Some (c_protocol hop_conn)) owner))))"

definition check_chain :: "tree \<Rightarrow> gateway_chain \<Rightarrow> node_id \<Rightarrow> (validation_error, unit) result" where
  "check_chain t chain owner = try_each (check_hop t owner) (gc_hops chain)"

definition check_effective :: "tree \<Rightarrow> node_id \<Rightarrow> connection_props \<Rightarrow> (core_error, unit) result" where
  "check_effective t i conn =
     and_then (resolve_optional t i credential_field) (\<lambda>credential.
     and_then
       (case r_value credential of
          None \<Rightarrow> Inr ()
        | Some c \<Rightarrow> from_validation (check_credential t c (Some (c_protocol conn)) i)) (\<lambda>_.
     and_then (resolve_optional t i gateway_field) (\<lambda>gateway.
       (case r_value gateway of
          None \<Rightarrow> Inr ()
        | Some chain \<Rightarrow>
            and_then (from_validation (validate_gateway_chain chain)) (\<lambda>_.
              from_validation (check_chain t chain i))))))"

definition check_member :: "tree \<Rightarrow> node_ref \<Rightarrow> (core_error, unit) result" where
  "check_member t member =
     (if \<not> ref_is_deleted member \<and> \<not> tree_contains t (ref_id member)
      then Inl (Validation (GroupMemberUnknown (ref_id member)))
      else Inr ())"

definition validate_references :: "tree \<Rightarrow> node_id \<Rightarrow> (core_error, unit) result" where
  "validate_references t i =
     and_then (ok_or (NodeNotFound i) (tree_get t i)) (\<lambda>n.
     and_then
       (case credential_field n of
          Some (Explicit credential) \<Rightarrow> from_validation (check_credential t credential None i)
        | _ \<Rightarrow> Inr ()) (\<lambda>_.
     and_then
       (case as_credential (n_kind n) of
          Some props \<Rightarrow> from_validation (check_attachment t i props)
        | None \<Rightarrow> Inr ()) (\<lambda>_.
     and_then
       (case gateway_field n of
          Some (Explicit chain) \<Rightarrow>
            and_then (from_validation (validate_gateway_chain chain)) (\<lambda>_.
              from_validation (check_chain t chain i))
        | _ \<Rightarrow> Inr ()) (\<lambda>_.
     and_then
       (case n_kind n of Group g \<Rightarrow> try_each (check_member t) (g_members g) | _ \<Rightarrow> Inr ()) (\<lambda>_.
     (case as_connection (n_kind n) of
        Some conn \<Rightarrow> check_effective t i conn
      | None \<Rightarrow> Inr ()))))))"

definition validate_all :: "tree \<Rightarrow> (node_id \<times> core_error) list" where
  "validate_all t =
     List.map_filter
       (\<lambda>i. case validate_references t i of Inr _ \<Rightarrow> None | Inl error \<Rightarrow> Some (i, error))
       (sort (map fst (t_nodes t)))"

section \<open>Referrers\<close>

definition live_at :: "node_id \<Rightarrow> node_ref \<Rightarrow> bool" where
  "live_at target r \<longleftrightarrow> \<not> ref_is_deleted r \<and> ref_id r = target"

definition hop_references :: "node_id \<Rightarrow> gateway_hop \<Rightarrow> bool" where
  "hop_references target hop \<longleftrightarrow>
     live_at target (h_node hop)
     \<or> (case h_credential hop of
          None \<Rightarrow> False
        | Some c \<Rightarrow> \<not> credential_ref_is_deleted c \<and> credential_ref_id c = target)"

definition holds_reference :: "node \<Rightarrow> node_id \<Rightarrow> bool" where
  "holds_reference n target \<longleftrightarrow>
     (case credential_field n of
        Some (Explicit c) \<Rightarrow> \<not> credential_ref_is_deleted c \<and> credential_ref_id c = target
      | _ \<Rightarrow> False)
     \<or> (case gateway_field n of
          Some (Explicit chain) \<Rightarrow> list_ex (hop_references target) (gc_hops chain)
        | _ \<Rightarrow> False)
     \<or> (case n_kind n of Group g \<Rightarrow> list_ex (live_at target) (g_members g) | _ \<Rightarrow> False)"

definition referrers :: "tree \<Rightarrow> node_id \<Rightarrow> node_id list" where
  "referrers t i =
     sort (map n_id (filter (\<lambda>n. n_id n \<noteq> i \<and> holds_reference n i) (tree_nodes t)))"

section \<open>New identities\<close>

definition remap_id :: "(node_id, node_id) hash_map \<Rightarrow> node_id \<Rightarrow> node_id" where
  "remap_id m i = (case map_of m i of None \<Rightarrow> i | Some j \<Rightarrow> j)"

definition remap_node :: "(node_id, node_id) hash_map \<Rightarrow> node \<Rightarrow> node" where
  "remap_node m n =
     (let n1 = (case map_of m (n_id n) of None \<Rightarrow> n | Some new \<Rightarrow> n\<lparr>n_id := new\<rparr>);
          n2 = (case Option.bind (n_parent_id n1) (map_of m) of
                  None \<Rightarrow> n1 | Some new \<Rightarrow> n1\<lparr>n_parent_id := Some new\<rparr>);
          n3 = references_mut (ref_retarget m) n2
      in case n_kind n3 of
           Credential c \<Rightarrow>
             (case Option.bind (cr_attached_to c) (map_of m) of
                None \<Rightarrow> n3
              | Some new \<Rightarrow> n3\<lparr>n_kind := Credential (c\<lparr>cr_attached_to := Some new\<rparr>)\<rparr>)
         | _ \<Rightarrow> n3)"

definition remap :: "(node_id, node_id) hash_map \<Rightarrow> node list \<Rightarrow> node list" where
  "remap m ns = map (remap_node m) ns"

text \<open>
  \<open>rekey\<close> draws a fresh id for each node; the ids the generator returns are its argument, one
  per node. Collecting the pairs into a map keeps the last pair of a repeated id.
\<close>

definition rekey_map :: "node_id list \<Rightarrow> node list \<Rightarrow> (node_id, node_id) hash_map" where
  "rekey_map fresh ns = fold (\<lambda>(n, j). AList.update (n_id n) j) (zip ns fresh) []"

definition rekey :: "node_id list \<Rightarrow> node list \<Rightarrow> (node_id, node_id) hash_map \<times> node list" where
  "rekey fresh ns = (let m = rekey_map fresh ns in (m, remap m ns))"

end
