(* ===== verification/Forest.thy ===== *)
theory Forest
  imports Prelude
begin

text \<open>
  Parent-pointer forests in general: chains of a parent function, how they change when one
  node gets another parent, and the contract (\<open>rooted_forest\<close>) a tree component offers to
  the walks over it, with the facts about descendants and levels every such walk needs.
\<close>

section \<open>Chains\<close>

inductive chain :: "('k \<Rightarrow> 'k option) \<Rightarrow> 'k option \<Rightarrow> 'k list \<Rightarrow> bool" for up where
  chain_root: "chain up None []"
| chain_step: "chain up (up x) xs \<Longrightarrow> chain up (Some x) (x # xs)"

inductive_simps chain_None_iff [simp]: "chain up None xs"
inductive_simps chain_Some_iff: "chain up (Some x) xs"
inductive_simps chain_Nil_iff [simp]: "chain up c []"

lemma chain_Cons_iff [simp]: "chain up c (x # xs) \<longleftrightarrow> c = Some x \<and> chain up (up x) xs"
  by (auto simp: chain.simps [of up c "x # xs"])

lemma chain_unique: "chain up c xs \<Longrightarrow> chain up c ys \<Longrightarrow> xs = ys"
proof (induction arbitrary: ys rule: chain.induct)
  case chain_root
  then show ?case by simp
next
  case (chain_step x xs)
  from chain_step.prems obtain ys' where "ys = x # ys'" "chain up (up x) ys'"
    by (auto simp: chain_Some_iff)
  with chain_step.IH show ?case by simp
qed

lemma chain_suffix: "chain up c (us @ x # vs) \<Longrightarrow> chain up (Some x) (x # vs)"
  by (induction us arbitrary: c) auto

lemma chain_distinct: "chain up c xs \<Longrightarrow> distinct xs"
proof (induction rule: chain.induct)
  case chain_root
  then show ?case by simp
next
  case (chain_step x xs)
  have "x \<notin> set xs"
  proof
    assume "x \<in> set xs"
    then obtain us vs where xs: "xs = us @ x # vs" by (auto simp: in_set_conv_decomp)
    with chain_step.hyps have "chain up (Some x) (x # vs)" by (auto dest: chain_suffix)
    moreover have "chain up (Some x) (x # xs)"
      using chain_step.hyps by simp
    ultimately have "x # vs = x # xs" by (rule chain_unique)
    with xs show False by simp
  qed
  with chain_step show ?case by simp
qed

text \<open>Prefixes of a chain before a node: the shape every path argument uses.\<close>

lemma chain_append:
  assumes "chain up c (us @ x # vs)" and "chain up (up x) ws"
  shows "vs = ws"
proof -
  from assms(1) have "chain up (up x) vs" by (auto dest: chain_suffix)
  with assms(2) show ?thesis by (blast intro: chain_unique)
qed

lemma chain_cong:
  assumes "chain up c xs" and "\<And>x. x \<in> set xs \<Longrightarrow> up' x = up x"
  shows "chain up' c xs"
  using assms by (induction rule: chain.induct) auto

text \<open>Changing the parent of one node.\<close>

lemma chain_upd_off: "chain up c xs \<Longrightarrow> a \<notin> set xs \<Longrightarrow> chain (up(a := v)) c xs"
  by (erule chain_cong) auto

lemma chain_upd_on:
  assumes "chain up c (us @ a # vs)" and "chain (up(a := v)) v ws"
  shows "chain (up(a := v)) c (us @ a # ws)"
proof -
  have "a \<notin> set us" using chain_distinct [OF assms(1)] by simp
  with assms show ?thesis
    by (induction us arbitrary: c) auto
qed

section \<open>The contract of a rooted forest\<close>

text \<open>
  \<open>verts\<close> are the nodes of a tree, \<open>up\<close> the parent of one, \<open>kids\<close> the nodes listed under
  a parent, and \<open>inv\<close> the well-formedness the component keeps.
\<close>

locale rooted_forest =
  fixes verts :: "'t \<Rightarrow> 'k set"
    and up :: "'t \<Rightarrow> 'k \<Rightarrow> 'k option"
    and kids :: "'t \<Rightarrow> 'k option \<Rightarrow> 'k list"
    and inv :: "'t \<Rightarrow> bool"
  assumes finite_verts: "inv t \<Longrightarrow> finite (verts t)"
    and up_closed: "inv t \<Longrightarrow> i \<in> verts t \<Longrightarrow> up t i = Some p \<Longrightarrow> p \<in> verts t"
    and rooted: "inv t \<Longrightarrow> i \<in> verts t \<Longrightarrow> \<exists>xs. chain (up t) (Some i) xs"
    and kids_iff: "inv t \<Longrightarrow> i \<in> set (kids t q) \<longleftrightarrow> i \<in> verts t \<and> up t i = q"
    and kids_distinct: "inv t \<Longrightarrow> distinct (kids t q)"
begin

lemma chain_in_verts:
  assumes "inv t" and "chain (up t) c xs" and "\<And>i. c = Some i \<Longrightarrow> i \<in> verts t"
  shows "set xs \<subseteq> verts t"
  using assms(2,3)
proof (induction rule: chain.induct)
  case chain_root
  then show ?case by simp
next
  case (chain_step x xs)
  then have "x \<in> verts t" by simp
  with chain_step show ?case using up_closed [OF assms(1)] by auto
qed

lemma chain_length_le:
  assumes "inv t" and "i \<in> verts t" and "chain (up t) (Some i) xs"
  shows "length xs \<le> card (verts t)"
proof -
  have "set xs \<subseteq> verts t" using assms by (intro chain_in_verts) auto
  then have "card (set xs) \<le> card (verts t)"
    using finite_verts [OF assms(1)] by (rule card_mono [rotated])
  then show ?thesis
    using chain_distinct [OF assms(3)] by (simp add: distinct_card)
qed

text \<open>\<open>level t i k\<close>: the nodes \<open>k\<close> steps below \<open>i\<close>.\<close>

definition level :: "'t \<Rightarrow> 'k \<Rightarrow> nat \<Rightarrow> 'k set" where
  "level t i k = {x \<in> verts t. \<exists>us vs. chain (up t) (Some x) (us @ i # vs) \<and> length us = k}"

definition below :: "'t \<Rightarrow> 'k \<Rightarrow> 'k set" where
  "below t i = {x \<in> verts t. \<exists>us vs. chain (up t) (Some x) (us @ i # vs) \<and> us \<noteq> []}"

lemma level_0:
  assumes "inv t" and "i \<in> verts t"
  shows "level t i 0 = {i}"
  using rooted [OF assms] assms by (auto simp: level_def chain_Some_iff)

lemma level_Suc:
  assumes "inv t"
  shows "level t i (Suc k) = (\<Union>p\<in>level t i k. set (kids t (Some p)))" (is "?l = ?r")
proof (intro equalityI subsetI)
  fix x assume "x \<in> ?l"
  then obtain us vs where x: "x \<in> verts t" "chain (up t) (Some x) (us @ i # vs)" "length us = Suc k"
    by (auto simp: level_def)
  then obtain us' where us: "us = x # us'" by (cases us) auto
  with x have ch: "chain (up t) (up t x) (us' @ i # vs)" by simp
  then obtain p where p: "up t x = Some p" by (cases "up t x") auto
  then have "p \<in> verts t" using up_closed [OF assms x(1)] by simp
  with ch p us x have "p \<in> level t i k" by (auto simp: level_def)
  with p x(1) show "x \<in> ?r" by (auto simp: kids_iff [OF assms])
next
  fix x assume "x \<in> ?r"
  then obtain p us vs where "x \<in> verts t" "up t x = Some p"
      "chain (up t) (Some p) (us @ i # vs)" "length us = k"
    by (auto simp: level_def kids_iff [OF assms])
  then have "chain (up t) (Some x) ((x # us) @ i # vs)" "length (x # us) = Suc k" by auto
  with \<open>x \<in> verts t\<close> show "x \<in> ?l" unfolding level_def by blast
qed

text \<open>A node sits at one level only.\<close>

lemma level_unique:
  assumes "x \<in> level t i j" and "x \<in> level t i k"
  shows "j = k"
proof -
  obtain us vs us' vs' where c: "chain (up t) (Some x) (us @ i # vs)" "length us = j"
      "chain (up t) (Some x) (us' @ i # vs')" "length us' = k"
    using assms by (auto simp: level_def)
  then have eq: "us @ i # vs = us' @ i # vs'" by (blast intro: chain_unique)
  have "i \<notin> set us" "i \<notin> set vs" using chain_distinct [OF c(1)] by auto
  from append_Cons_eq_iff [OF this] eq have "us = us'" by blast
  with c(2,4) show ?thesis by simp
qed

lemma below_levels: "below t i = (\<Union>k. level t i (Suc k))"
  by (fastforce simp: below_def level_def length_Suc_conv neq_Nil_conv)

lemma below_iff_step:
  assumes "inv t"
  shows "x \<in> below t i \<longleftrightarrow>
    x \<in> verts t \<and> (\<exists>p. up t x = Some p \<and> (p = i \<and> i \<in> verts t \<or> p \<in> below t i))"
proof
  assume "x \<in> below t i"
  then obtain us vs where x: "x \<in> verts t" "chain (up t) (Some x) (us @ i # vs)" "us \<noteq> []"
    by (auto simp: below_def)
  then obtain us' where us: "us = x # us'" by (cases us) auto
  with x have ch: "chain (up t) (up t x) (us' @ i # vs)" by simp
  then obtain p where p: "up t x = Some p" by (cases "up t x") auto
  then have pv: "p \<in> verts t" using up_closed [OF assms x(1)] by simp
  show "x \<in> verts t \<and> (\<exists>p. up t x = Some p \<and> (p = i \<and> i \<in> verts t \<or> p \<in> below t i))"
  proof (cases us')
    case Nil
    with ch p pv x(1) show ?thesis by auto
  next
    case (Cons y ys)
    with ch p have "chain (up t) (Some p) (us' @ i # vs)" "us' \<noteq> []" by simp_all
    with pv have "p \<in> below t i" unfolding below_def by blast
    with p x(1) show ?thesis by blast
  qed
next
  assume "x \<in> verts t \<and> (\<exists>p. up t x = Some p \<and> (p = i \<and> i \<in> verts t \<or> p \<in> below t i))"
  then obtain p where x: "x \<in> verts t" "up t x = Some p" "p = i \<and> i \<in> verts t \<or> p \<in> below t i"
    by blast
  then obtain us vs where "chain (up t) (Some p) (us @ i # vs)"
    using rooted [OF assms, of i]
    by (auto simp: below_def chain_Some_iff) (metis append_Nil)
  then have "chain (up t) (Some x) ((x # us) @ i # vs)" using x by simp
  with x(1) show "x \<in> below t i" unfolding below_def by blast
qed

lemma not_below_self: "i \<notin> below t i"
proof
  assume "i \<in> below t i"
  then obtain us vs where "chain (up t) (Some i) (us @ i # vs)" "us \<noteq> []"
    by (auto simp: below_def)
  then show False using chain_distinct [of "up t" "Some i" "us @ i # vs"] by (cases us) auto
qed

lemma below_closed:
  assumes "inv t" and "p = i \<or> p \<in> below t i" and "x \<in> set (kids t (Some p))"
  shows "x \<in> below t i"
  using assms below_iff_step [OF assms(1)] kids_iff [OF assms(1)] up_closed [OF assms(1)] by blast

text \<open>Two different nodes with one parent have nothing in common below them.\<close>

lemma siblings_disjoint:
  assumes "up t y = up t z" and "y \<noteq> z"
  shows "insert y (below t y) \<inter> insert z (below t z) = {}"
proof -
  have "chain (up t) (Some w) (us @ y # vs) \<Longrightarrow> chain (up t) (Some w) (us' @ z # vs') \<Longrightarrow> False"
    for w us vs us' vs'
  proof -
    assume c: "chain (up t) (Some w) (us @ y # vs)" "chain (up t) (Some w) (us' @ z # vs')"
    have "vs = vs'"
      using chain_append [OF c(1)] chain_suffix [OF c(2)] assms(1) by simp
    with chain_unique [OF c] have "us @ [y] = us' @ [z]" by simp
    with assms(2) show False by simp
  qed
  note apart = this
  have self: "\<exists>us vs. chain (up t) (Some w) (us @ w # vs)"
    if c: "chain (up t) (Some w) (us @ x # vs)" for w x us vs
  proof -
    obtain xs where "us @ x # vs = w # xs" using c by (cases us) auto
    with c have "chain (up t) (Some w) ([] @ w # xs)" by simp
    then show ?thesis by blast
  qed
  show ?thesis
  proof (rule equals0I)
    fix w assume w: "w \<in> insert y (below t y) \<inter> insert z (below t z)"
    then have "w \<in> below t y \<or> w \<in> below t z" using assms(2) by auto
    then have "\<exists>us vs. chain (up t) (Some w) (us @ w # vs)"
      by (auto simp: below_def intro: self)
    then have "\<exists>us vs. chain (up t) (Some w) (us @ x # vs)" if "w = x \<or> w \<in> below t x" for x
      using that by (auto simp: below_def)
    with w show False using apart by blast
  qed
qed

lemma level_subset_below: "level t i (Suc k) \<subseteq> below t i"
  by (auto simp: below_levels)

lemma level_kid:
  assumes "inv t" and "y \<in> set (kids t (Some x))"
  shows "level t y k \<subseteq> level t x (Suc k)"
proof
  fix w assume "w \<in> level t y k"
  then obtain us vs where w: "w \<in> verts t" "chain (up t) (Some w) (us @ y # vs)" "length us = k"
    by (auto simp: level_def)
  have "up t y = Some x" using assms by (simp add: kids_iff)
  with chain_suffix [OF w(2)] obtain vs' where "vs = x # vs'" by (auto simp: chain_Some_iff)
  with w have "chain (up t) (Some w) ((us @ [y]) @ x # vs')" "length (us @ [y]) = Suc k" by auto
  with w(1) show "w \<in> level t x (Suc k)" unfolding level_def by blast
qed

lemma level_kids_Un:
  assumes "inv t" and "x \<in> verts t"
  shows "level t x (Suc k) = (\<Union>y\<in>set (kids t (Some x)). level t y k)"
proof (intro equalityI)
  show "(\<Union>y\<in>set (kids t (Some x)). level t y k) \<subseteq> level t x (Suc k)"
    using level_kid [OF assms(1)] by blast
  show "level t x (Suc k) \<subseteq> (\<Union>y\<in>set (kids t (Some x)). level t y k)"
  proof (induction k)
    case 0
    show ?case
    proof
      fix w assume "w \<in> level t x (Suc 0)"
      then have w: "w \<in> set (kids t (Some x))"
        using level_Suc [OF assms(1)] level_0 [OF assms] by simp
      then have "w \<in> level t w 0"
        using level_0 [OF assms(1)] by (simp add: kids_iff [OF assms(1)])
      with w show "w \<in> (\<Union>y\<in>set (kids t (Some x)). level t y 0)" by blast
    qed
  next
    case (Suc k)
    then show ?case
      unfolding level_Suc [OF assms(1), of x "Suc k"] using level_Suc [OF assms(1)] by blast
  qed
qed

text \<open>
  Walking down from \<open>i\<close> reaches all of \<open>below t i\<close>: a set that has the children of \<open>i\<close> and
  is closed under children contains it.
\<close>

lemma below_least:
  assumes "inv t" and "set (kids t (Some i)) \<subseteq> S"
    and "\<And>p. p \<in> S \<Longrightarrow> set (kids t (Some p)) \<subseteq> S"
  shows "below t i \<subseteq> S"
proof -
  have "level t i (Suc k) \<subseteq> S" for k
  proof (induction k)
    case 0
    have "level t i 0 \<subseteq> {i}" by (auto simp: level_def)
    then show ?case unfolding level_Suc [OF assms(1), of i 0] using assms(2) by blast
  next
    case (Suc k)
    then show ?case unfolding level_Suc [OF assms(1), of i "Suc k"] using assms(3) by blast
  qed
  then show ?thesis by (auto simp: below_levels)
qed

end

end
