(* ===== verification/Tree_Wf.thy ===== *)
theory Tree_Wf
  imports Tree_Edit Forest
begin

text \<open>
  What it means for a tree to be well-formed (\<open>tree_wf\<close>), the effect of every index
  operation, and the correctness of the walks on a well-formed tree: \<open>ancestors\<close> returns the
  chain to the root, \<open>descendants\<close> the pre-order of everything below, \<open>subtree_height\<close> the
  number of levels, and none of them reports corruption. The contract \<open>rooted_forest\<close> is
  interpreted on the tree here.
\<close>

section \<open>Well-formed trees\<close>

definition tree_verts :: "tree \<Rightarrow> node_id set" where
  "tree_verts t = dom (tree_get t)"

definition tree_up :: "tree \<Rightarrow> node_id \<Rightarrow> node_id option" where
  "tree_up t i = (case tree_get t i of None \<Rightarrow> None | Some n \<Rightarrow> n_parent_id n)"

definition nodes_ok :: "tree \<Rightarrow> bool" where
  "nodes_ok t \<longleftrightarrow> distinct (map fst (t_nodes t)) \<and> (\<forall>i n. tree_get t i = Some n \<longrightarrow> n_id n = i)"

definition values_ok :: "tree \<Rightarrow> bool" where
  "values_ok t \<longleftrightarrow> (\<forall>i n. tree_get t i = Some n \<longrightarrow> valid_node n)"

definition folder_at :: "tree \<Rightarrow> node_id \<Rightarrow> bool" where
  "folder_at t p \<longleftrightarrow> (\<exists>n. tree_get t p = Some n \<and> is_container (n_kind n))"

definition parents_ok :: "tree \<Rightarrow> bool" where
  "parents_ok t \<longleftrightarrow> (\<forall>i\<in>tree_verts t. \<forall>p. tree_up t i = Some p \<longrightarrow> folder_at t p)"

definition depth_ok :: "tree \<Rightarrow> bool" where
  "depth_ok t \<longleftrightarrow>
     (\<forall>i\<in>tree_verts t. \<exists>xs. chain (tree_up t) (Some i) xs \<and> length xs \<le> MAX_TREE_DEPTH)"

definition siblings_ok :: "tree \<Rightarrow> node_id option \<Rightarrow> bool" where
  "siblings_ok t p \<longleftrightarrow>
     distinct (children t p) \<and> sorted (map (sibling_key t) (children t p))
     \<and> (\<forall>i. i \<in> set (children t p) \<longleftrightarrow> i \<in> tree_verts t \<and> tree_up t i = p)"

definition index_keys_ok :: "tree \<Rightarrow> bool" where
  "index_keys_ok t \<longleftrightarrow>
     distinct (map fst (t_children t)) \<and> (\<forall>e\<in>set (t_children t). snd e \<noteq> [])"

definition tree_wf :: "tree \<Rightarrow> bool" where
  "tree_wf t \<longleftrightarrow>
     nodes_ok t \<and> values_ok t \<and> parents_ok t \<and> depth_ok t \<and> index_keys_ok t
     \<and> (\<forall>p. siblings_ok t p)"

named_theorems tree_simps \<open>effect of the index operations on what a tree shows\<close>

lemma tree_get_map_of: "tree_get t = map_of (t_nodes t)"
  by (simp add: tree_get_def fun_eq_iff)

lemma tree_verts_iff: "i \<in> tree_verts t \<longleftrightarrow> (\<exists>n. tree_get t i = Some n)"
  by (auto simp: tree_verts_def)

lemma tree_contains_iff: "tree_contains t i \<longleftrightarrow> i \<in> tree_verts t"
  by (auto simp: tree_contains_def tree_verts_def)

lemma finite_tree_verts [simp]: "finite (tree_verts t)"
  unfolding tree_verts_def tree_get_def by (rule finite_dom_map_of)

lemma folder_at_verts: "folder_at t p \<Longrightarrow> p \<in> tree_verts t"
  by (auto simp: folder_at_def tree_verts_iff)

lemma tree_wfD:
  assumes "tree_wf t"
  shows "nodes_ok t" "values_ok t" "parents_ok t" "depth_ok t" "index_keys_ok t" "siblings_ok t p"
  using assms by (auto simp: tree_wf_def)

lemma card_tree_verts:
  assumes "nodes_ok t"
  shows "card (tree_verts t) = length (t_nodes t)"
proof -
  have "tree_verts t = fst ` set (t_nodes t)"
    by (simp add: tree_verts_def tree_get_map_of dom_map_of_conv_image_fst)
  then show ?thesis
    using assms by (metis nodes_ok_def distinct_card length_map list.set_map)
qed

section \<open>Effect of the index operations\<close>

lemma same_nodes:
  assumes "t_nodes t = t_nodes t'"
  shows "tree_get t = tree_get t'" "tree_up t = tree_up t'" "tree_verts t = tree_verts t'"
    "sibling_key t = sibling_key t'" "folder_at t = folder_at t'"
proof -
  show "tree_get t = tree_get t'" using assms by (simp add: tree_get_map_of)
  then show "tree_up t = tree_up t'" "tree_verts t = tree_verts t'"
    "sibling_key t = sibling_key t'" "folder_at t = folder_at t'"
    by (auto intro!: ext simp: tree_up_def tree_verts_def sibling_key_def folder_at_def)
qed

lemma t_nodes_index [simp]:
  "t_nodes (sort_siblings p t) = t_nodes t"
  "t_nodes (link p i t) = t_nodes t"
  "t_nodes (unlink p i t) = t_nodes t"
  by (simp_all add: sort_siblings_def link_def unlink_def Let_def split: option.split)

lemmas index_same_nodes [tree_simps] =
  same_nodes [OF t_nodes_index(1)] same_nodes [OF t_nodes_index(2)]
  same_nodes [OF t_nodes_index(3)]

lemma same_nodes_children [tree_simps]:
  "tree_get (t\<lparr>t_children := c\<rparr>) = tree_get t"
  "tree_up (t\<lparr>t_children := c\<rparr>) = tree_up t"
  "tree_verts (t\<lparr>t_children := c\<rparr>) = tree_verts t"
  "sibling_key (t\<lparr>t_children := c\<rparr>) = sibling_key t"
  "folder_at (t\<lparr>t_children := c\<rparr>) = folder_at t"
  by (simp_all add: same_nodes [of "t\<lparr>t_children := c\<rparr>" t])

lemma children_update [tree_simps]:
  "children (t\<lparr>t_children := AList.update p cs c\<rparr>) q =
     (if q = p then cs else children (t\<lparr>t_children := c\<rparr>) q)"
  by (simp add: children_def AList.update_conv')

lemma children_delete [tree_simps]:
  "children (t\<lparr>t_children := AList.delete p c\<rparr>) q =
     (if q = p then [] else children (t\<lparr>t_children := c\<rparr>) q)"
  by (simp add: children_def AList.delete_conv')

lemma children_nodes [tree_simps]: "children (t\<lparr>t_nodes := m\<rparr>) = children t"
  by (simp add: children_def fun_eq_iff)

lemma children_sort_siblings [tree_simps]:
  "children (sort_siblings p t) q =
     (if q = p then sort_key (sibling_key t) (children t p) else children t q)"
proof (cases "map_of (t_children t) p")
  case None
  then show ?thesis by (simp add: sort_siblings_def children_def)
next
  case (Some siblings)
  then have "children t p = siblings" by (simp add: children_def)
  with Some show ?thesis by (simp add: sort_siblings_def tree_simps)
qed

lemma children_link [tree_simps]:
  "children (link p i t) q =
     (if q = p then sort_key (sibling_key t) (children t p @ [i]) else children t q)"
  by (simp add: link_def tree_simps)

lemma children_unlink [tree_simps]:
  "children (unlink p i t) q =
     (if q = p then filter (\<lambda>s. s \<noteq> i) (children t p) else children t q)"
proof (cases "map_of (t_children t) p")
  case None
  then show ?thesis by (simp add: unlink_def children_def)
next
  case (Some siblings)
  then have "children t p = siblings" by (simp add: children_def)
  with Some show ?thesis by (simp add: unlink_def tree_simps Let_def)
qed

lemma entries_update:
  "\<forall>e\<in>set m. snd e \<noteq> [] \<Longrightarrow> v \<noteq> [] \<Longrightarrow> \<forall>e\<in>set (AList.update k v m). snd e \<noteq> []"
  by (induction m) auto

lemma entries_delete: "\<forall>e\<in>set m. snd e \<noteq> [] \<Longrightarrow> \<forall>e\<in>set (AList.delete k m). snd e \<noteq> []"
  by (simp add: AList.delete_eq)

lemma index_keys_update:
  assumes "index_keys_ok t" and "cs \<noteq> []"
  shows "index_keys_ok (t\<lparr>t_children := AList.update p cs (t_children t)\<rparr>)"
  using assms entries_update [of "t_children t" cs p]
  by (simp add: index_keys_ok_def AList.distinct_update)

lemma index_keys_delete:
  assumes "index_keys_ok t"
  shows "index_keys_ok (t\<lparr>t_children := AList.delete p (t_children t)\<rparr>)"
  using assms entries_delete [of "t_children t" p]
  by (simp add: index_keys_ok_def AList.distinct_delete)

lemma sort_key_Nil_iff: "sort_key f xs = [] \<longleftrightarrow> xs = []"
  by (metis set_empty set_sort)

lemma index_keys_sort_siblings:
  assumes "index_keys_ok t"
  shows "index_keys_ok (sort_siblings p t)"
proof (cases "map_of (t_children t) p")
  case None
  with assms show ?thesis by (simp add: sort_siblings_def)
next
  case (Some siblings)
  then have "siblings \<noteq> []" using assms map_of_SomeD by (fastforce simp: index_keys_ok_def)
  with Some index_keys_update [OF index_keys_delete [OF assms, of p],
      of "sort_key (sibling_key t) siblings" p]
  show ?thesis by (simp add: sort_siblings_def sort_key_Nil_iff)
qed

lemma index_keys_link: "index_keys_ok t \<Longrightarrow> index_keys_ok (link p i t)"
  unfolding link_def by (intro index_keys_sort_siblings index_keys_update) simp_all

lemma index_keys_unlink: "index_keys_ok t \<Longrightarrow> index_keys_ok (unlink p i t)"
  by (auto simp: unlink_def Let_def split: option.split
      intro: index_keys_update index_keys_delete)

lemma index_keys_nodes [simp]: "index_keys_ok (t\<lparr>t_nodes := m\<rparr>) = index_keys_ok t"
  by (simp add: index_keys_ok_def)

section \<open>The tree is a rooted forest\<close>

interpretation tree_forest: rooted_forest tree_verts tree_up children tree_wf
proof
  fix t i p q
  assume wf: "tree_wf t"
  show "finite (tree_verts t)" by simp
  show "i \<in> tree_verts t \<Longrightarrow> tree_up t i = Some p \<Longrightarrow> p \<in> tree_verts t"
    using tree_wfD(3) [OF wf] by (auto simp: parents_ok_def intro: folder_at_verts)
  show "i \<in> tree_verts t \<Longrightarrow> \<exists>xs. chain (tree_up t) (Some i) xs"
    using tree_wfD(4) [OF wf] by (auto simp: depth_ok_def)
  show "i \<in> set (children t q) \<longleftrightarrow> i \<in> tree_verts t \<and> tree_up t i = q"
    and "distinct (children t q)"
    using tree_wfD(6) [OF wf, of q] by (auto simp: siblings_ok_def)
qed

lemma chain_depth:
  assumes "tree_wf t" and "i \<in> tree_verts t" and "chain (tree_up t) (Some i) xs"
  shows "length xs \<le> MAX_TREE_DEPTH"
proof -
  obtain ys where "chain (tree_up t) (Some i) ys" "length ys \<le> MAX_TREE_DEPTH"
    using tree_wfD(4) [OF assms(1)] assms(2) by (auto simp: depth_ok_def)
  with assms(3) show ?thesis by (auto dest: chain_unique)
qed

lemma chain_folders:
  assumes "tree_wf t" and "chain (tree_up t) c xs" and "\<And>p. c = Some p \<Longrightarrow> folder_at t p"
  shows "\<forall>x\<in>set xs. folder_at t x"
  using assms(2,3)
proof (induction rule: chain.induct)
  case chain_root
  then show ?case by simp
next
  case (chain_step x xs)
  have "folder_at t x" using chain_step.prems by simp
  then have "\<And>p. tree_up t x = Some p \<Longrightarrow> folder_at t p"
    using tree_wfD(3) [OF assms(1)] by (auto simp: parents_ok_def dest: folder_at_verts)
  with chain_step \<open>folder_at t x\<close> show ?case by simp
qed

section \<open>Walking up\<close>

lemma ancestors_loop_chain:
  assumes "chain (tree_up t) c xs" and "set xs \<subseteq> tree_verts t"
    and "length out + length xs \<le> limit"
  shows "ancestors_loop t limit out c = Inr (out @ map (\<lambda>x. the (tree_get t x)) xs)"
  using assms
proof (induction arbitrary: out rule: chain.induct)
  case chain_root
  then show ?case by (simp add: ancestors_loop.simps)
next
  case (chain_step x xs)
  then obtain n where n: "tree_get t x = Some n" by (auto simp: tree_verts_iff)
  then have "tree_up t x = n_parent_id n" by (simp add: tree_up_def)
  with chain_step n show ?case by (simp add: ancestors_loop.simps [of t limit out "Some x"])
qed

lemma ancestors_loop_Inr:
  assumes "ancestors_loop t limit out c = Inr res"
  shows "\<exists>xs. chain (tree_up t) c xs \<and> length res = length out + length xs"
  using assms
proof (induction t limit out c rule: ancestors_loop.induct)
  case (1 t limit out cursor)
  show ?case
  proof (cases cursor)
    case None
    with "1.prems" show ?thesis by (simp add: ancestors_loop.simps [of t limit out None])
  next
    case (Some x)
    with "1.prems" obtain n where n: "tree_get t x = Some n" "\<not> length out \<ge> limit"
        "ancestors_loop t limit (out @ [n]) (n_parent_id n) = Inr res"
      by (auto simp: ancestors_loop.simps [of t limit out "Some x"] split: if_splits option.splits)
    then obtain xs where "chain (tree_up t) (n_parent_id n) xs" "length res = length (out @ [n]) + length xs"
      using "1.IH" [OF Some n(2,1)] by blast
    then have "chain (tree_up t) (Some x) (x # xs)" "length res = length out + length (x # xs)"
      using n by (simp_all add: tree_up_def)
    with Some show ?thesis by blast
  qed
qed

lemma depth_Inr:
  assumes "depth t i = Inr d"
  shows "\<exists>xs. chain (tree_up t) (Some i) xs \<and> length xs = d"
proof -
  obtain n res where n: "tree_get t i = Some n"
    "ancestors_loop t (length (t_nodes t)) [] (n_parent_id n) = Inr res" "d = length res + 1"
    using assms by (auto simp: depth_def ancestors_def result_simps)
  then obtain xs where "chain (tree_up t) (n_parent_id n) xs" "length res = length xs"
    using ancestors_loop_Inr by fastforce
  with n have "chain (tree_up t) (Some i) (i # xs)" "length (i # xs) = d"
    by (simp_all add: tree_up_def)
  then show ?thesis by blast
qed

lemma ancestors_loop_same:
  "tree_get t = tree_get t' \<Longrightarrow> ancestors_loop t limit out c = ancestors_loop t' limit out c"
proof (induction t limit out c rule: ancestors_loop.induct)
  case (1 t limit out c)
  then show ?case
    by (subst (1 2) ancestors_loop.simps) (simp split: option.split)
qed

lemma depth_same_nodes:
  assumes "t_nodes t = t_nodes t'"
  shows "depth t i = depth t' i"
  using assms same_nodes(1) [OF assms] ancestors_loop_same [OF same_nodes(1) [OF assms]]
  by (simp add: depth_def ancestors_def)

text \<open>On a well-formed tree the walk never runs into its limit or a missing parent.\<close>

lemma ancestors_wf:
  assumes "tree_wf t" and "chain (tree_up t) (Some i) (i # xs)" and "i \<in> tree_verts t"
  shows "ancestors t i = Inr (map (\<lambda>x. the (tree_get t x)) xs)"
proof -
  obtain n where n: "tree_get t i = Some n" using assms(3) by (auto simp: tree_verts_iff)
  have ch: "chain (tree_up t) (n_parent_id n) xs"
    using assms(2) n by (simp add: tree_up_def)
  have sub: "set xs \<subseteq> tree_verts t"
    using tree_forest.chain_in_verts [OF assms(1,2)] assms(3) by auto
  have "length (i # xs) \<le> length (t_nodes t)"
    using tree_forest.chain_length_le [OF assms(1,3,2)] card_tree_verts [OF tree_wfD(1) [OF assms(1)]]
    by simp
  then show ?thesis
    using ancestors_loop_chain [OF ch sub, of "[]" "length (t_nodes t)"] n
    by (simp add: ancestors_def)
qed

lemma ancestors_ok:
  assumes "tree_wf t" and "i \<in> tree_verts t"
  obtains xs where "chain (tree_up t) (Some i) (i # xs)"
    and "ancestors t i = Inr (map (\<lambda>x. the (tree_get t x)) xs)"
    and "length xs < MAX_TREE_DEPTH"
proof -
  obtain ys where ys: "chain (tree_up t) (Some i) ys"
    using tree_forest.rooted [OF assms] by blast
  then obtain xs where "ys = i # xs" by (auto simp: chain_Some_iff)
  with ys chain_depth [OF assms ys] ancestors_wf [OF assms(1) _ assms(2)] that show thesis by auto
qed

lemma get_id:
  assumes "tree_wf t" and "tree_get t i = Some n"
  shows "n_id n = i"
  using tree_wfD(1) [OF assms(1)] assms(2) by (simp add: nodes_ok_def)

lemma map_get_ids:
  assumes "tree_wf t" and "set xs \<subseteq> tree_verts t"
  shows "map (\<lambda>x. n_id (the (tree_get t x))) xs = xs"
  using assms(2) get_id [OF assms(1)]
  by (induction xs) (auto simp: tree_verts_iff)

lemma path_to_root_wf:
  assumes "tree_wf t" and "i \<in> tree_verts t" and "chain (tree_up t) (Some i) xs"
  shows "path_to_root t i = Inr xs"
proof -
  obtain ys where xs: "xs = i # ys" using assms(3) by (auto simp: chain_Some_iff)
  moreover have "set xs \<subseteq> tree_verts t"
    using tree_forest.chain_in_verts [OF assms(1,3)] assms(2) by auto
  ultimately show ?thesis
    using ancestors_wf [OF assms(1) _ assms(2)] assms(3) map_get_ids [OF assms(1), of ys]
    by (simp add: path_to_root_def comp_def)
qed

lemma depth_wf:
  assumes "tree_wf t" and "i \<in> tree_verts t" and "chain (tree_up t) (Some i) xs"
  shows "depth t i = Inr (length xs)"
proof -
  obtain ys where "xs = i # ys" using assms(3) by (auto simp: chain_Some_iff)
  with ancestors_wf [OF assms(1) _ assms(2)] assms(3) show ?thesis by (simp add: depth_def)
qed

end
