(* ===== verification/Tree_Walk.thy ===== *)
theory Tree_Walk
  imports Tree_Wf
begin

text \<open>
  The downward walks on a well-formed tree. \<open>descendants\<close>, written in the code with an
  explicit stack and a set of seen ids, computes the recursive pre-order; \<open>subtree_height\<close>,
  written level by level, computes the number of non-empty levels. Neither reports a
  corrupted tree.
\<close>

section \<open>Pre-order\<close>

text \<open>The specification: a node, then the pre-order of each child, cut off at a depth.\<close>

fun preorder_upto :: "nat \<Rightarrow> tree \<Rightarrow> node_id \<Rightarrow> node_id list" where
  "preorder_upto 0 t x = []"
| "preorder_upto (Suc k) t x = x # concat (map (preorder_upto k t) (children t (Some x)))"

definition preorder :: "tree \<Rightarrow> node_id \<Rightarrow> node_id list" where
  "preorder t = preorder_upto MAX_TREE_DEPTH t"

definition preorder_below :: "tree \<Rightarrow> node_id \<Rightarrow> node_id list" where
  "preorder_below t x = concat (map (preorder t) (children t (Some x)))"

lemma kid_verts: "tree_wf t \<Longrightarrow> y \<in> set (children t (Some x)) \<Longrightarrow> y \<in> tree_verts t"
  by (simp add: tree_forest.kids_iff)

text \<open>No node is more than \<open>MAX_TREE_DEPTH - 1\<close> steps below another.\<close>

lemma level_max_empty:
  assumes "tree_wf t"
  shows "tree_forest.level t x MAX_TREE_DEPTH = {}"
proof (rule equals0I)
  fix w assume "w \<in> tree_forest.level t x MAX_TREE_DEPTH"
  then obtain us vs where w: "w \<in> tree_verts t" "chain (tree_up t) (Some w) (us @ x # vs)"
      "length us = MAX_TREE_DEPTH"
    by (auto simp: tree_forest.level_def)
  with chain_depth [OF assms w(1,2)] show False by simp
qed

lemma preorder_upto_stable:
  assumes "tree_wf t" and "x \<in> tree_verts t" and "tree_forest.level t x k = {}"
  shows "preorder_upto (Suc k) t x = preorder_upto k t x"
  using assms(2,3)
proof (induction k arbitrary: x)
  case 0
  then show ?case using tree_forest.level_0 [OF assms(1)] by simp
next
  case (Suc k)
  have "preorder_upto (Suc k) t y = preorder_upto k t y" if "y \<in> set (children t (Some x))" for y
    using Suc.IH [of y] Suc.prems(2) tree_forest.level_kid [OF assms(1) that, of k]
      kid_verts [OF assms(1) that] by simp
  then have "map (preorder_upto (Suc k) t) (children t (Some x))
      = map (preorder_upto k t) (children t (Some x))"
    by simp
  then show ?case by (metis preorder_upto.simps(2))
qed

lemma preorder_unfold:
  assumes "tree_wf t" and "x \<in> tree_verts t"
  shows "preorder t x = x # preorder_below t x"
proof -
  have "preorder t x = preorder_upto (Suc MAX_TREE_DEPTH) t x"
    using preorder_upto_stable [OF assms level_max_empty [OF assms(1)]] by (simp add: preorder_def)
  also have "\<dots> = x # preorder_below t x"
    by (simp add: preorder_below_def preorder_def)
  finally show ?thesis .
qed

lemma kid_below_subset:
  assumes "tree_wf t" and "y \<in> set (children t (Some x))"
  shows "insert y (tree_forest.below t y) \<subseteq> tree_forest.below t x"
proof -
  have "y \<in> tree_forest.below t x"
    using tree_forest.below_closed [OF assms(1) _ assms(2)] by simp
  moreover have "tree_forest.below t y \<subseteq> tree_forest.below t x"
  proof (rule tree_forest.below_least [OF assms(1)])
    show "set (children t (Some y)) \<subseteq> tree_forest.below t x"
      using tree_forest.below_closed [OF assms(1)] \<open>y \<in> tree_forest.below t x\<close> by blast
    show "p \<in> tree_forest.below t x \<Longrightarrow> set (children t (Some p)) \<subseteq> tree_forest.below t x" for p
      using tree_forest.below_closed [OF assms(1)] by blast
  qed
  ultimately show ?thesis by simp
qed

lemma set_preorder_upto:
  assumes "tree_wf t" and "x \<in> tree_verts t"
  shows "set (preorder_upto k t x) \<subseteq> insert x (tree_forest.below t x)"
  using assms(2)
proof (induction k arbitrary: x)
  case 0
  then show ?case by simp
next
  case (Suc k)
  have "insert y (tree_forest.below t y) \<subseteq> tree_forest.below t x"
    if "y \<in> set (children t (Some x))" for y
    using kid_below_subset [OF assms(1) that] .
  with Suc.IH kid_verts [OF assms(1)] show ?case by fastforce
qed

lemma preorder_upto_closed:
  assumes "p \<in> set (preorder_upto k t x)"
  shows "set (children t (Some p)) \<subseteq> set (preorder_upto (Suc k) t x)"
  using assms
proof (induction k arbitrary: x)
  case 0
  then show ?case by simp
next
  case (Suc k)
  show ?case
  proof (cases "p = x")
    case True
    then show ?thesis by fastforce
  next
    case False
    with Suc.prems obtain y where y: "y \<in> set (children t (Some x))" "p \<in> set (preorder_upto k t y)"
      by auto
    with Suc.IH have "set (children t (Some p)) \<subseteq> set (preorder_upto (Suc k) t y)" by blast
    with y(1) show ?thesis by (fastforce simp del: preorder_upto.simps simp: preorder_upto.simps(2) [of "Suc k"])
  qed
qed

lemma set_preorder:
  assumes "tree_wf t" and "x \<in> tree_verts t"
  shows "set (preorder t x) = insert x (tree_forest.below t x)"
proof (intro equalityI)
  show "set (preorder t x) \<subseteq> insert x (tree_forest.below t x)"
    unfolding preorder_def by (rule set_preorder_upto [OF assms])
  have closed: "set (children t (Some p)) \<subseteq> set (preorder t x)" if "p \<in> set (preorder t x)" for p
    using preorder_upto_closed [of p MAX_TREE_DEPTH t x] that
    unfolding preorder_def preorder_upto_stable [OF assms level_max_empty [OF assms(1)]] .
  have x: "x \<in> set (preorder t x)" using preorder_unfold [OF assms] by simp
  have "tree_forest.below t x \<subseteq> set (preorder t x)"
    by (rule tree_forest.below_least [OF assms(1) closed [OF x] closed])
  with x show "insert x (tree_forest.below t x) \<subseteq> set (preorder t x)" by simp
qed

lemma distinct_concat_disjoint:
  assumes "distinct xs" and "\<And>x. x \<in> set xs \<Longrightarrow> distinct (f x)"
    and "\<And>x y. x \<in> set xs \<Longrightarrow> y \<in> set xs \<Longrightarrow> x \<noteq> y \<Longrightarrow> set (f x) \<inter> set (f y) = {}"
  shows "distinct (concat (map f xs))"
  using assms
proof (induction xs)
  case Nil
  then show ?case by simp
next
  case (Cons a xs)
  have "distinct (concat (map f xs))" using Cons by simp
  moreover have "set (f a) \<inter> set (f y) = {}" if "y \<in> set xs" for y
    using Cons.prems(1) Cons.prems(3) [of a y] that by auto
  ultimately show ?case using Cons.prems(2) [of a] by auto
qed

lemma distinct_preorder_upto:
  assumes "tree_wf t" and "x \<in> tree_verts t"
  shows "distinct (preorder_upto k t x)"
  using assms(2)
proof (induction k arbitrary: x)
  case 0
  then show ?case by simp
next
  case (Suc k)
  let ?kids = "children t (Some x)"
  have sub: "set (preorder_upto k t y) \<subseteq> insert y (tree_forest.below t y)" if "y \<in> set ?kids" for y
    using set_preorder_upto [OF assms(1) kid_verts [OF assms(1) that]] .
  have "set (preorder_upto k t y) \<inter> set (preorder_upto k t z) = {}"
    if "y \<in> set ?kids" "z \<in> set ?kids" "y \<noteq> z" for y z
    using sub [OF that(1)] sub [OF that(2)] tree_forest.siblings_disjoint [of t y z] that
    by (simp add: tree_forest.kids_iff [OF assms(1)]) blast
  then have "distinct (concat (map (preorder_upto k t) ?kids))"
    using tree_forest.kids_distinct [OF assms(1)] Suc.IH kid_verts [OF assms(1)]
    by (intro distinct_concat_disjoint) auto
  moreover have "x \<notin> set (preorder_upto k t y)" if "y \<in> set ?kids" for y
    using sub [OF that] kid_below_subset [OF assms(1) that] tree_forest.not_below_self [of x t]
    by blast
  ultimately show ?case by auto
qed

lemma distinct_preorder: "tree_wf t \<Longrightarrow> x \<in> tree_verts t \<Longrightarrow> distinct (preorder t x)"
  unfolding preorder_def by (rule distinct_preorder_upto)

section \<open>The stack computes the pre-order\<close>

lemma descendants_loop_preorder:
  assumes "tree_wf t" and "set stack \<subseteq> tree_verts t"
    and "distinct (concat (map (preorder t) stack))"
    and "set (concat (map (preorder t) stack)) \<inter> seen = {}"
  shows "descendants_loop t seen out stack = Inr (out @ concat (map (preorder t) stack))"
  using assms
proof (induction t seen out stack rule: descendants_loop.induct)
  case (1 t seen out stack)
  show ?case
  proof (cases stack)
    case Nil
    then show ?thesis by (simp add: descendants_loop.simps)
  next
    case (Cons x rest)
    have x: "x \<in> tree_verts t" "preorder t x = x # preorder_below t x"
      using "1.prems" Cons preorder_unfold [OF "1.prems"(1)] by auto
    let ?stack' = "children t (Some x) @ rest"
    have out: "concat (map (preorder t) stack) = x # concat (map (preorder t) ?stack')"
      using Cons x(2) by (simp add: preorder_below_def)
    have notin: "x \<notin> seen" using "1.prems"(4) out by auto
    have "descendants_loop t (insert x seen) (out @ [x]) ?stack'
        = Inr ((out @ [x]) @ concat (map (preorder t) ?stack'))"
    proof (rule "1.IH" [OF Cons notin "1.prems"(1)])
      show "set ?stack' \<subseteq> tree_verts t"
        using "1.prems"(2) Cons kid_verts [OF "1.prems"(1)] by auto
      show "distinct (concat (map (preorder t) ?stack'))"
        using "1.prems"(3) out by simp
      show "set (concat (map (preorder t) ?stack')) \<inter> insert x seen = {}"
        using "1.prems"(3,4) unfolding out by auto
    qed
    with Cons notin out show ?thesis by (simp add: descendants_loop.simps [of t seen out "x # rest"])
  qed
qed

lemma descendants_preorder:
  assumes "tree_wf t" and "i \<in> tree_verts t"
  shows "descendants t i = Inr (preorder_below t i)"
proof -
  have "distinct (preorder_below t i)"
    using distinct_preorder [OF assms] preorder_unfold [OF assms] by simp
  then have "descendants_loop t {} [] (children t (Some i)) = Inr ([] @ preorder_below t i)"
    unfolding preorder_below_def
    by (intro descendants_loop_preorder [OF assms(1)]) (auto simp: kid_verts [OF assms(1)])
  with assms(2) show ?thesis by (simp add: descendants_def tree_contains_iff)
qed

lemma set_preorder_below:
  assumes "tree_wf t" and "i \<in> tree_verts t"
  shows "set (preorder_below t i) = tree_forest.below t i"
    and "distinct (preorder_below t i)"
proof -
  have u: "preorder t i = i # preorder_below t i" by (rule preorder_unfold [OF assms])
  with distinct_preorder [OF assms] have d: "distinct (i # preorder_below t i)" by simp
  then show "distinct (preorder_below t i)" by simp
  have "insert i (set (preorder_below t i)) = insert i (tree_forest.below t i)"
    using set_preorder [OF assms] u by simp
  with d tree_forest.not_below_self show "set (preorder_below t i) = tree_forest.below t i"
    by (metis distinct.simps(2) insert_ident)
qed

lemma subtree_preorder:
  assumes "tree_wf t" and "i \<in> tree_verts t"
  shows "subtree t i = Inr (preorder t i)"
  using descendants_preorder [OF assms] preorder_unfold [OF assms] by (simp add: subtree_def)

section \<open>Height\<close>

text \<open>\<open>height_is t i h\<close>: \<open>h\<close> is the number of non-empty levels from \<open>i\<close> down.\<close>

definition height_is :: "tree \<Rightarrow> node_id \<Rightarrow> nat \<Rightarrow> bool" where
  "height_is t i h \<longleftrightarrow>
     0 < h \<and> tree_forest.level t i h = {} \<and> (\<forall>k<h. tree_forest.level t i k \<noteq> {})"

lemma level_list_distinct:
  assumes "tree_wf t" and "distinct xs"
  shows "distinct (level_children t xs)"
  unfolding level_children_def
proof (rule distinct_concat_disjoint [OF assms(2)])
  show "distinct (children t (Some x))" for x by (rule tree_forest.kids_distinct [OF assms(1)])
  show "set (children t (Some x)) \<inter> set (children t (Some y)) = {}" if "x \<noteq> y" for x y
    using that by (auto simp: tree_forest.kids_iff [OF assms(1)])
qed

lemma height_loop_levels:
  assumes "tree_wf t" and "distinct xs" and "set xs = tree_forest.level t i k"
    and "seen = (\<Union>j\<le>k. tree_forest.level t i j)"
    and "\<forall>j\<le>k. tree_forest.level t i j \<noteq> {}" and "height = Suc k"
  shows "\<exists>h. height_loop t seen height xs = Inr h \<and> height_is t i h"
  using assms
proof (induction t seen height xs arbitrary: k rule: height_loop.induct)
  case (1 t seen height xs)
  let ?next = "level_children t xs"
  have nextset: "set ?next = tree_forest.level t i (Suc k)"
    using "1.prems"(3) tree_forest.level_Suc [OF "1.prems"(1)] by (simp add: set_level_children)
  have "set ?next \<inter> seen = {}"
    unfolding nextset "1.prems"(4) using tree_forest.level_unique by fastforce
  moreover have d: "distinct ?next" by (rule level_list_distinct [OF "1.prems"(1,2)])
  ultimately have scan: "scan_level seen [] ?next = Inr (seen \<union> set ?next, ?next)"
    by (simp add: scan_level_Inr_iff)
  show ?case
  proof (cases "?next = []")
    case True
    then have "tree_forest.level t i (Suc k) = {}" using nextset by simp
    with "1.prems"(5,6) have "height_is t i height" by (auto simp: height_is_def)
    with True scan show ?thesis by (simp add: height_loop.simps [of t seen height xs])
  next
    case False
    then have ne: "tree_forest.level t i (Suc k) \<noteq> {}" using nextset by auto
    have "\<exists>h. height_loop t (seen \<union> set ?next) (height + 1) ?next = Inr h \<and> height_is t i h"
    proof (rule "1.IH" [OF scan refl False "1.prems"(1) d nextset])
      show "seen \<union> set ?next = (\<Union>j\<le>Suc k. tree_forest.level t i j)"
        unfolding nextset "1.prems"(4) by (simp add: atMost_Suc Un_commute)
      show "\<forall>j\<le>Suc k. tree_forest.level t i j \<noteq> {}"
        using ne "1.prems"(5) by (auto simp: le_Suc_eq)
      show "height + 1 = Suc (Suc k)" using "1.prems"(6) by simp
    qed
    with False scan show ?thesis by (simp add: height_loop.simps [of t seen height xs])
  qed
qed

lemma subtree_height_ok:
  assumes "tree_wf t" and "i \<in> tree_verts t"
  obtains h where "subtree_height t i = Inr h" and "height_is t i h"
proof -
  have "tree_forest.level t i 0 = {i}" by (rule tree_forest.level_0 [OF assms])
  then have "\<exists>h. height_loop t {i} 1 [i] = Inr h \<and> height_is t i h"
    by (intro height_loop_levels [OF assms(1), where k = 0]) auto
  with that show thesis by (auto simp: subtree_height_def)
qed

text \<open>Everything below \<open>i\<close> is fewer than \<open>h\<close> steps away.\<close>

lemma level_empty_mono:
  assumes "tree_wf t" and "tree_forest.level t i k = {}" and "k \<le> j"
  shows "tree_forest.level t i j = {}"
  using assms(3)
proof (induction j rule: dec_induct)
  case base
  then show ?case by (rule assms(2))
next
  case (step m)
  then show ?case using tree_forest.level_Suc [OF assms(1)] by simp
qed

lemma height_bound:
  assumes "tree_wf t" and "height_is t i h" and "x \<in> tree_verts t"
    and "chain (tree_up t) (Some x) (us @ i # vs)"
  shows "length us < h"
proof (rule ccontr)
  assume "\<not> length us < h"
  then have "tree_forest.level t i (length us) = {}"
    using level_empty_mono [OF assms(1)] assms(2) by (auto simp: height_is_def)
  with assms(3,4) show False by (auto simp: tree_forest.level_def)
qed

end
