(* ===== verification/Tree_Inv.thy ===== *)
theory Tree_Inv
  imports Tree_Walk
begin

text \<open>
  Every operation that changes the tree keeps it well-formed. \<open>insert\<close>, \<open>update\<close> and each
  step of \<open>move_node\<close> replace one node and re-index it, so they share the lemma
  \<open>relink_wf\<close>; \<open>soft_delete\<close> changes many nodes but nothing the index depends on
  (\<open>similar_wf\<close>). A step that fails leaves the tree as it was.
\<close>

section \<open>Replacing one node\<close>

lemma depth_ok_relink:
  assumes wf: "tree_wf t"
    and verts: "tree_verts t' = insert i (tree_verts t)"
    and up: "tree_up t' = (tree_up t)(i := p)"
    and ys: "chain (tree_up t) p ys" "i \<notin> set ys" "length ys < MAX_TREE_DEPTH"
    and bound: "\<And>x us vs. x \<in> tree_verts t \<Longrightarrow> chain (tree_up t) (Some x) (us @ i # vs)
      \<Longrightarrow> length us + 1 + length ys \<le> MAX_TREE_DEPTH"
  shows "depth_ok t'"
  unfolding depth_ok_def
proof
  fix x assume "x \<in> tree_verts t'"
  then have x: "x = i \<or> x \<in> tree_verts t" using verts by simp
  have ys': "chain ((tree_up t)(i := p)) p ys" using ys by (intro chain_upd_off) auto
  show "\<exists>xs. chain (tree_up t') (Some x) xs \<and> length xs \<le> MAX_TREE_DEPTH"
  proof (cases "x = i")
    case True
    with ys' ys(3) show ?thesis unfolding up by (intro exI [of _ "i # ys"]) simp
  next
    case False
    with x obtain xs where xs: "chain (tree_up t) (Some x) xs" "length xs \<le> MAX_TREE_DEPTH"
      using tree_wfD(4) [OF wf] by (auto simp: depth_ok_def)
    show ?thesis
    proof (cases "i \<in> set xs")
      case True
      then obtain us vs where xs_split: "xs = us @ i # vs" by (auto simp: in_set_conv_decomp)
      have "chain (tree_up t') (Some x) (us @ i # ys)"
        unfolding up using chain_upd_on [OF xs(1) [unfolded xs_split] ys'] .
      moreover have "length us + 1 + length ys \<le> MAX_TREE_DEPTH"
        using bound False x xs(1) xs_split by blast
      ultimately show ?thesis by (intro exI [of _ "us @ i # ys"]) simp
    next
      case False
      with xs show ?thesis unfolding up by (blast intro: chain_upd_off)
    qed
  qed
qed

lemma relink_wf:
  assumes wf: "tree_wf t"
    and get: "tree_get t' = (tree_get t)(i \<mapsto> n)"
    and n: "n_id n = i" "valid_node n"
    and container: "\<And>n0. tree_get t i = Some n0 \<Longrightarrow> is_container (n_kind n0) \<Longrightarrow> is_container (n_kind n)"
    and parent: "\<And>q. n_parent_id n = Some q \<Longrightarrow> folder_at t q"
    and ys: "chain (tree_up t) (n_parent_id n) ys" "i \<notin> set ys" "length ys < MAX_TREE_DEPTH"
    and bound: "\<And>x us vs. x \<in> tree_verts t \<Longrightarrow> chain (tree_up t) (Some x) (us @ i # vs)
      \<Longrightarrow> length us + 1 + length ys \<le> MAX_TREE_DEPTH"
    and keys: "distinct (map fst (t_nodes t'))" "index_keys_ok t'"
    and siblings: "\<And>q. siblings_ok t' q"
  shows "tree_wf t'"
proof -
  have verts: "tree_verts t' = insert i (tree_verts t)" by (simp add: tree_verts_def get)
  have up: "tree_up t' = (tree_up t)(i := n_parent_id n)"
    by (simp add: tree_up_def get fun_eq_iff)
  have folder: "folder_at t q \<Longrightarrow> folder_at t' q" for q
    using container by (auto simp: folder_at_def get)
  have "parents_ok t'"
    using tree_wfD(3) [OF wf] folder parent unfolding parents_ok_def verts up by auto
  moreover have "nodes_ok t'"
    using tree_wfD(1) [OF wf] keys(1) n(1) by (auto simp: nodes_ok_def get)
  moreover have "values_ok t'"
    using tree_wfD(2) [OF wf] n(2) by (auto simp: values_ok_def get)
  moreover have "depth_ok t'" by (rule depth_ok_relink [OF wf verts up ys bound])
  ultimately show ?thesis using keys(2) siblings by (simp add: tree_wf_def)
qed

lemma siblings_ok_relink:
  assumes old: "\<And>q. siblings_ok t q"
    and verts: "tree_verts t' = insert i (tree_verts t)"
    and up: "tree_up t' = (tree_up t)(i := p)"
    and key: "\<And>x. x \<noteq> i \<Longrightarrow> sibling_key t' x = sibling_key t x"
    and kids: "children t' q =
      (if q = p then sort_key (sibling_key t') (filter (\<lambda>s. s \<noteq> i) (children t q) @ [i])
       else filter (\<lambda>s. s \<noteq> i) (children t q))"
  shows "siblings_ok t' q"
proof -
  let ?kept = "filter (\<lambda>s. s \<noteq> i) (children t q)"
  have o: "distinct (children t q)" "sorted (map (sibling_key t) (children t q))"
      "\<And>x. x \<in> set (children t q) \<longleftrightarrow> x \<in> tree_verts t \<and> tree_up t x = q"
    using old [of q] by (auto simp: siblings_ok_def)
  have eq: "map (sibling_key t') ?kept = map (sibling_key t) ?kept" using key by simp
  have "sorted (map (sibling_key t') ?kept)" unfolding eq using o(2) by (rule sorted_filter)
  then show ?thesis
    using o(1,3) unfolding siblings_ok_def kids verts up by auto
qed

section \<open>Changing many nodes without moving any\<close>

definition similar :: "node \<Rightarrow> node \<Rightarrow> bool" where
  "similar n n' \<longleftrightarrow>
     n_id n' = n_id n \<and> n_parent_id n' = n_parent_id n \<and> n_sort_order n' = n_sort_order n
     \<and> is_container (n_kind n') = is_container (n_kind n)
     \<and> (valid_node n \<longrightarrow> valid_node n')"

lemma similar_refl [simp]: "similar n n"
  by (simp add: similar_def)

lemma similar_trans: "similar a b \<Longrightarrow> similar b c \<Longrightarrow> similar a c"
  by (simp add: similar_def)

lemma similar_wf:
  assumes wf: "tree_wf t" and idx: "t_children t' = t_children t"
    and keys: "map fst (t_nodes t') = map fst (t_nodes t)"
    and sim: "\<And>i. rel_option similar (tree_get t i) (tree_get t' i)"
  shows "tree_wf t'"
proof -
  have cases: "tree_get t i = None \<and> tree_get t' i = None
      \<or> (\<exists>n n'. tree_get t i = Some n \<and> tree_get t' i = Some n' \<and> similar n n')" for i
    using sim [of i] by (cases rule: option.rel_cases) auto
  have up: "tree_up t' = tree_up t"
  proof
    show "tree_up t' i = tree_up t i" for i
      using cases [of i] by (auto simp: tree_up_def similar_def)
  qed
  have verts: "tree_verts t' = tree_verts t"
  proof (rule set_eqI)
    show "i \<in> tree_verts t' \<longleftrightarrow> i \<in> tree_verts t" for i
      using cases [of i] by (auto simp: tree_verts_iff)
  qed
  have key: "sibling_key t' = sibling_key t"
  proof
    show "sibling_key t' i = sibling_key t i" for i
      using cases [of i] by (auto simp: sibling_key_def similar_def)
  qed
  have folder: "folder_at t' p \<longleftrightarrow> folder_at t p" for p
    using cases [of p] by (auto simp: folder_at_def similar_def)
  have kids: "children t' = children t" using idx by (simp add: children_def fun_eq_iff)
  have old: "\<exists>n. tree_get t i = Some n \<and> similar n n'" if "tree_get t' i = Some n'" for i n'
    using cases [of i] that by auto
  have "nodes_ok t'"
    using tree_wfD(1) [OF wf] keys by (auto simp: nodes_ok_def similar_def dest!: old)
  moreover have "values_ok t'"
    using tree_wfD(2) [OF wf] by (auto simp: values_ok_def similar_def dest!: old)
  ultimately show ?thesis
    using wf by (simp add: tree_wf_def parents_ok_def depth_ok_def siblings_ok_def
        index_keys_ok_def up verts key folder kids idx)
qed

section \<open>Insert\<close>

lemma insert_guard_ok:
  assumes wf: "tree_wf t" and g: "insert_guard n t = Inr u"
  shows "valid_node n" "n_id n \<notin> tree_verts t"
    and "n_parent_id n = Some q \<Longrightarrow> folder_at t q"
    and "\<exists>ys. chain (tree_up t) (n_parent_id n) ys \<and> length ys < MAX_TREE_DEPTH
           \<and> set ys \<subseteq> tree_verts t"
proof -
  show "valid_node n" "n_id n \<notin> tree_verts t"
    using g by (auto simp: insert_guard_def result_simps tree_contains_iff split: if_splits)
  have p: "folder_at t q \<and> (\<exists>d. depth t q = Inr d \<and> d < MAX_TREE_DEPTH)"
    if "n_parent_id n = Some q" for q
    using g that by (auto simp: insert_guard_def result_simps folder_at_def split: if_splits)
  then show "n_parent_id n = Some q \<Longrightarrow> folder_at t q" by simp
  show "\<exists>ys. chain (tree_up t) (n_parent_id n) ys \<and> length ys < MAX_TREE_DEPTH
      \<and> set ys \<subseteq> tree_verts t"
  proof (cases "n_parent_id n")
    case None
    then show ?thesis by (simp add: MAX_TREE_DEPTH_def)
  next
    case (Some q)
    then have q: "q \<in> tree_verts t" using p by (auto intro: folder_at_verts)
    then obtain ys where ys: "chain (tree_up t) (Some q) ys" using tree_forest.rooted [OF wf] by blast
    then have "length ys < MAX_TREE_DEPTH" using depth_wf [OF wf q] p [OF Some] by auto
    with Some ys q tree_forest.chain_in_verts [OF wf ys] show ?thesis by auto
  qed
qed

lemma children_fresh:
  "tree_wf t \<Longrightarrow> i \<notin> tree_verts t \<Longrightarrow> filter (\<lambda>s. s \<noteq> i) (children t q) = children t q"
  by (rule filter_True) (auto simp: tree_forest.kids_iff)

lemma tree_insert_wf:
  assumes wf: "tree_wf t"
  shows "tree_wf (snd (tree_insert n t))"
proof (cases "insert_guard n t")
  case (Inl e)
  with wf show ?thesis by (simp add: tree_insert_def)
next
  case (Inr u)
  let ?i = "n_id n" and ?m = "AList.update (n_id n) n (t_nodes t)"
  let ?t = "link (n_parent_id n) ?i (t\<lparr>t_nodes := ?m\<rparr>)"
  note n = insert_guard_ok(1,2,3) [OF wf Inr]
  obtain ys where ys: "chain (tree_up t) (n_parent_id n) ys" "length ys < MAX_TREE_DEPTH"
      "set ys \<subseteq> tree_verts t"
    using insert_guard_ok(4) [OF wf Inr] by blast
  have get: "tree_get ?t = (tree_get t)(?i \<mapsto> n)"
    by (simp add: tree_simps tree_get_map_of AList.update_conv')
  have "tree_wf ?t"
  proof (rule relink_wf [OF wf get refl n(1) _ n(3) ys(1) _ ys(2)])
    show "is_container (n_kind n)" if "tree_get t ?i = Some n0" for n0
      using that n(2) by (auto simp: tree_verts_iff)
    show "?i \<notin> set ys" using ys(3) n(2) by blast
    show "length us + 1 + length ys \<le> MAX_TREE_DEPTH"
      if "x \<in> tree_verts t" "chain (tree_up t) (Some x) (us @ ?i # vs)" for x us vs
      using tree_forest.chain_in_verts [OF wf that(2)] that(1) n(2) by auto
    show "distinct (map fst (t_nodes ?t))"
      using tree_wfD(1) [OF wf] by (simp add: nodes_ok_def AList.distinct_update)
    show "index_keys_ok ?t" using tree_wfD(5) [OF wf] by (intro index_keys_link) simp
    show "siblings_ok ?t q" for q
    proof (rule siblings_ok_relink [OF tree_wfD(6) [OF wf]])
      show "tree_verts ?t = insert ?i (tree_verts t)" by (simp add: tree_verts_def get)
      show "tree_up ?t = (tree_up t)(?i := n_parent_id n)"
        by (simp add: tree_up_def get fun_eq_iff)
      show "sibling_key ?t x = sibling_key t x" if "x \<noteq> ?i" for x
        using that by (simp add: sibling_key_def get)
      show "children ?t q =
        (if q = n_parent_id n then sort_key (sibling_key ?t) (filter (\<lambda>s. s \<noteq> ?i) (children t q) @ [?i])
         else filter (\<lambda>s. s \<noteq> ?i) (children t q))"
        by (simp add: tree_simps children_fresh [OF wf n(2)])
    qed
  qed
  with Inr show ?thesis by (simp add: tree_insert_def)
qed

section \<open>Update\<close>

lemma update_guard_ok:
  assumes "update_guard n t = Inr existing"
  shows "valid_node n" "tree_get t (n_id n) = Some existing" "n_parent_id existing = n_parent_id n"
  using assms by (auto simp: update_guard_def result_simps split: if_splits)

lemma update_stored_simps [simp]:
  "n_id (update_stored existing n) = n_id n"
  "n_parent_id (update_stored existing n) = n_parent_id n"
  "n_sort_order (update_stored existing n) = n_sort_order n"
  "n_kind (update_stored existing n) = n_kind n"
  "n_revision (update_stored existing n) = saturating_add (n_revision existing) 1"
  "n_created_at (update_stored existing n) = n_created_at existing"
  "n_updated_at (update_stored existing n) = max (n_updated_at n) (n_updated_at existing)"
  "validate_node (update_stored existing n) = validate_node n"
  by (simp_all add: update_stored_def)

lemma tree_get_update_store:
  "tree_get (update_store existing n t) = (tree_get t)(n_id n \<mapsto> update_stored existing n)"
  by (simp add: update_store_def Let_def tree_simps tree_get_map_of AList.update_conv')

lemma siblings_ok_cong:
  assumes "siblings_ok t q" and "tree_verts t' = tree_verts t" and "tree_up t' = tree_up t"
    and "children t' q = children t q"
    and "\<And>x. x \<in> set (children t q) \<Longrightarrow> sibling_key t' x = sibling_key t x"
  shows "siblings_ok t' q"
proof -
  have "map (sibling_key t') (children t q) = map (sibling_key t) (children t q)"
    using assms(5) by (intro map_cong) auto
  then show ?thesis using assms(1-4) unfolding siblings_ok_def by metis
qed

lemma update_store_same:
  assumes "update_guard n t = Inr existing"
  shows "tree_verts (update_store existing n t) = tree_verts t"
    and "tree_up (update_store existing n t) = tree_up t"
  using update_guard_ok [OF assms]
  by (auto simp: tree_verts_def tree_up_def tree_get_update_store fun_eq_iff)

lemma update_store_siblings:
  assumes sib: "siblings_ok t q" and g: "update_guard n t = Inr existing"
  shows "siblings_ok (update_store existing n t) q" (is "siblings_ok ?t q")
proof -
  note ok = update_guard_ok [OF g] and same = update_store_same [OF g]
  have key: "sibling_key ?t x = sibling_key t x"
    if "x \<noteq> n_id n \<or> n_sort_order existing = n_sort_order n" for x
    using that ok(2) by (auto simp: sibling_key_def tree_get_update_store)
  show ?thesis
  proof (cases "q = n_parent_id n \<and> n_sort_order existing \<noteq> n_sort_order n")
    case True
    then have "children ?t q = sort_key (sibling_key ?t) (children t q)"
      by (simp add: update_store_def Let_def tree_simps)
    with sib show ?thesis by (simp add: siblings_ok_def same)
  next
    case False
    then have "children ?t q = children t q"
      by (auto simp: update_store_def Let_def tree_simps)
    then show ?thesis
    proof (rule siblings_ok_cong [OF sib same])
      show "sibling_key ?t x = sibling_key t x" if "x \<in> set (children t q)" for x
        using that False sib ok(2,3) by (intro key) (auto simp: siblings_ok_def tree_up_def)
    qed
  qed
qed

lemma update_store_wf:
  assumes wf: "tree_wf t" and g: "update_guard n t = Inr existing"
    and cont: "is_container (n_kind existing) \<Longrightarrow> is_container (n_kind n)"
  shows "tree_wf (update_store existing n t)"
proof -
  let ?i = "n_id n" and ?t = "update_store existing n t"
  note ok = update_guard_ok [OF g] and get = tree_get_update_store [of existing n t]
    and sib = update_store_siblings [OF tree_wfD(6) [OF wf] g]
  have i: "?i \<in> tree_verts t" and up_i: "tree_up t ?i = n_parent_id n"
    using ok by (auto simp: tree_verts_iff tree_up_def)
  obtain ys where ys: "chain (tree_up t) (Some ?i) (?i # ys)"
    using tree_forest.rooted [OF wf i] by (auto simp: chain_Some_iff)
  show ?thesis
  proof (rule relink_wf [OF wf get _ _ _ _ _ _ _ _ _ _ sib, where ys = ys])
    show "n_id (update_stored existing n) = ?i" "valid_node (update_stored existing n)"
      using ok by simp_all
    show "is_container (n_kind (update_stored existing n))"
      if "tree_get t ?i = Some n0" "is_container (n_kind n0)" for n0
      using that ok(2) cont by simp
    show "folder_at t q" if "n_parent_id (update_stored existing n) = Some q" for q
      using tree_wfD(3) [OF wf] i up_i that by (auto simp: parents_ok_def)
    show "chain (tree_up t) (n_parent_id (update_stored existing n)) ys" using ys up_i by simp
    show "?i \<notin> set ys" using chain_distinct [OF ys] by simp
    show "length ys < MAX_TREE_DEPTH" using chain_depth [OF wf i ys] by simp
    show "length us + 1 + length ys \<le> MAX_TREE_DEPTH"
      if c: "x \<in> tree_verts t" "chain (tree_up t) (Some x) (us @ ?i # vs)" for x us vs
    proof -
      have "vs = ys" using chain_append [OF c(2)] ys by simp
      with chain_depth [OF wf c] show ?thesis by simp
    qed
    show "distinct (map fst (t_nodes ?t))"
      using tree_wfD(1) [OF wf]
      by (simp add: nodes_ok_def AList.distinct_update update_store_def Let_def)
    show "index_keys_ok ?t"
      using tree_wfD(5) [OF wf] by (simp add: update_store_def Let_def index_keys_sort_siblings)
  qed
qed

lemma tree_update_wf:
  assumes wf: "tree_wf t"
    and cont: "\<And>existing. tree_get t (n_id n) = Some existing \<Longrightarrow>
      is_container (n_kind existing) \<Longrightarrow> is_container (n_kind n)"
  shows "tree_wf (snd (tree_update n t))"
proof (cases "update_guard n t")
  case (Inl e)
  with wf show ?thesis by (simp add: tree_update_def)
next
  case (Inr existing)
  with cont have "tree_wf (update_store existing n t)"
    using update_guard_ok(2) by (intro update_store_wf [OF wf Inr]) blast
  with Inr show ?thesis by (simp add: tree_update_def Let_def split: sum.split)
qed

section \<open>Move\<close>

lemma place_node_simps [simp]:
  "n_id (place_node p order n) = n_id n"
  "n_parent_id (place_node p order n) = p"
  "n_sort_order (place_node p order n) = order"
  "n_kind (place_node p order n) = n_kind n"
  "n_name (place_node p order n) = n_name n"
  "n_deleted_at (place_node p order n) = n_deleted_at n"
  "n_created_at (place_node p order n) = n_created_at n"
  "n_updated_at (place_node p order n) = n_updated_at n"
  "n_revision (place_node p order n) = saturating_add (n_revision n) 1"
  "validate_node (place_node p order n) = validate_node n"
  by (simp_all add: place_node_def)

lemma tree_get_relocate [tree_simps]:
  "tree_get (relocate old new order i t) =
     (tree_get t)(i := map_option (place_node new order) (tree_get t i))"
  by (auto simp: relocate_def Let_def tree_simps tree_get_map_of fun_eq_iff)

lemma relocate_same:
  assumes "i \<in> tree_verts t"
  shows "tree_verts (relocate old new order i t) = tree_verts t"
    and "tree_up (relocate old new order i t) = (tree_up t)(i := new)"
    and "folder_at (relocate old new order i t) = folder_at t"
  using assms
  by (auto simp: tree_verts_def tree_up_def folder_at_def tree_simps fun_eq_iff)

lemma relocate_keys [simp]:
  "map fst (t_nodes (relocate old new order i t)) = map fst (t_nodes t)"
  by (simp add: relocate_def Let_def)

lemma children_relocate:
  assumes "tree_wf t" and "old = tree_up t i"
  shows "children (relocate old new order i t) q =
    (if q = new
     then sort_key (sibling_key (relocate old new order i t)) (filter (\<lambda>s. s \<noteq> i) (children t q) @ [i])
     else filter (\<lambda>s. s \<noteq> i) (children t q))"
proof -
  have "filter (\<lambda>s. s \<noteq> i) (children t q) = children t q" if "q \<noteq> old" for q
    using that assms by (intro filter_True) (auto simp: tree_forest.kids_iff)
  then show ?thesis by (auto simp: relocate_def Let_def tree_simps)
qed

lemma relocate_wf:
  assumes wf: "tree_wf t" and i: "i \<in> tree_verts t" and old: "old = tree_up t i"
    and parent: "\<And>q. new = Some q \<Longrightarrow> folder_at t q"
    and ys: "chain (tree_up t) new ys" "i \<notin> set ys"
    and bound: "\<And>x us vs. x \<in> tree_verts t \<Longrightarrow> chain (tree_up t) (Some x) (us @ i # vs)
      \<Longrightarrow> length us + 1 + length ys \<le> MAX_TREE_DEPTH"
  shows "tree_wf (relocate old new order i t)" (is "tree_wf ?t")
proof -
  obtain n where n: "tree_get t i = Some n" using i by (auto simp: tree_verts_iff)
  have get: "tree_get ?t = (tree_get t)(i \<mapsto> place_node new order n)"
    using n by (simp add: tree_simps)
  obtain vs where "chain (tree_up t) (Some i) ([] @ i # vs)"
    using tree_forest.rooted [OF wf i] by (auto simp: chain_Some_iff)
  then have len: "length ys < MAX_TREE_DEPTH" using bound [OF i, of "[]" vs] by simp
  show ?thesis
  proof (rule relink_wf [OF wf get, where ys = ys])
    show "n_id (place_node new order n) = i" using get_id [OF wf n] by simp
    show "valid_node (place_node new order n)"
      using tree_wfD(2) [OF wf] n by (simp add: values_ok_def)
    show "is_container (n_kind n0) \<Longrightarrow> is_container (n_kind (place_node new order n))"
      if "tree_get t i = Some n0" for n0 using that n by simp
    show "length us + 1 + length ys \<le> MAX_TREE_DEPTH"
      if "x \<in> tree_verts t" "chain (tree_up t) (Some x) (us @ i # vs)" for x us vs
      using bound that .
    show "distinct (map fst (t_nodes ?t))"
      using tree_wfD(1) [OF wf] by (simp add: nodes_ok_def)
    show "index_keys_ok ?t"
      using tree_wfD(5) [OF wf]
      by (simp add: relocate_def Let_def index_keys_link index_keys_unlink)
    show "siblings_ok ?t q" for q
    proof (rule siblings_ok_relink [OF tree_wfD(6) [OF wf] _ relocate_same(2) [OF i] _
          children_relocate [OF wf old]])
      show "tree_verts ?t = insert i (tree_verts t)" using i relocate_same(1) by blast
      show "sibling_key ?t x = sibling_key t x" if "x \<noteq> i" for x
        using that by (simp add: sibling_key_def get)
    qed
  qed (use parent ys len in simp_all)
qed

text \<open>What a preview that succeeds has established.\<close>

lemma check_new_parent_ok:
  assumes wf: "tree_wf t" and c: "check_new_parent t i new = Inr ()"
  shows "new = Some q \<Longrightarrow> folder_at t q"
    and "\<exists>ys. chain (tree_up t) new ys \<and> i \<notin> set ys
           \<and> (case new of Some q \<Rightarrow> depth t q | None \<Rightarrow> Inr 0) = Inr (length ys)"
proof -
  have q: "folder_at t q \<and> i \<notin> set path" if "new = Some q" "path_to_root t q = Inr path" for q path
    using c that by (auto simp: check_new_parent_def result_simps folder_at_def split: if_splits)
  have v: "q \<in> tree_verts t" if "new = Some q" for q
    using c that by (auto simp: check_new_parent_def tree_contains_iff split: if_splits)
  have walk: "\<exists>ys. chain (tree_up t) (Some q) ys \<and> path_to_root t q = Inr ys
      \<and> depth t q = Inr (length ys)" if "new = Some q" for q
    using tree_forest.rooted [OF wf v [OF that]] path_to_root_wf [OF wf v [OF that]]
      depth_wf [OF wf v [OF that]] by blast
  show "new = Some q \<Longrightarrow> folder_at t q" using q walk by blast
  show "\<exists>ys. chain (tree_up t) new ys \<and> i \<notin> set ys
      \<and> (case new of Some q \<Rightarrow> depth t q | None \<Rightarrow> Inr 0) = Inr (length ys)"
    using q walk by (cases new) auto
qed

lemma preview_move_ok:
  assumes wf: "tree_wf t" and pv: "preview_move t i new = Inr patch"
  shows "i \<in> tree_verts t" and "new = Some q \<Longrightarrow> folder_at t q"
    and "patch = patch_default\<lparr>p_updated := i # attached_credentials t i,
                               p_resolution_changed := preorder t i\<rparr>"
    and "\<exists>ys. chain (tree_up t) new ys \<and> i \<notin> set ys \<and>
      (\<forall>x us vs. x \<in> tree_verts t \<longrightarrow> chain (tree_up t) (Some x) (us @ i # vs)
         \<longrightarrow> length us + 1 + length ys \<le> MAX_TREE_DEPTH)"
proof -
  show i: "i \<in> tree_verts t"
    using pv by (auto simp: preview_move_def tree_contains_iff split: if_splits)
  obtain h where h: "subtree_height t i = Inr h" "height_is t i h"
    by (rule subtree_height_ok [OF wf i])
  have c: "check_new_parent t i new = Inr ()"
    using pv by (auto simp: preview_move_def result_simps split: if_splits)
  then show "new = Some q \<Longrightarrow> folder_at t q" by (rule check_new_parent_ok(1) [OF wf])
  show "patch = patch_default\<lparr>p_updated := i # attached_credentials t i,
                               p_resolution_changed := preorder t i\<rparr>"
    using pv subtree_preorder [OF wf i] by (auto simp: preview_move_def result_simps split: if_splits)
  obtain ys where ys: "chain (tree_up t) new ys" "i \<notin> set ys"
      "(case new of Some q \<Rightarrow> depth t q | None \<Rightarrow> Inr 0) = Inr (length ys)"
    using check_new_parent_ok(2) [OF wf c] by blast
  with pv h have "length ys + h \<le> MAX_TREE_DEPTH"
    by (auto simp: preview_move_def result_simps split: if_splits)
  with ys height_bound [OF wf h(2)] show "\<exists>ys. chain (tree_up t) new ys \<and> i \<notin> set ys \<and>
      (\<forall>x us vs. x \<in> tree_verts t \<longrightarrow> chain (tree_up t) (Some x) (us @ i # vs)
         \<longrightarrow> length us + 1 + length ys \<le> MAX_TREE_DEPTH)"
    by (intro exI [of _ ys]) fastforce
qed

text \<open>
  Moving an attached credential after its connection. A credential is no folder, so it has
  nothing below it and is on no path to the root but its own.
\<close>

definition credential_at :: "tree \<Rightarrow> node_id \<Rightarrow> bool" where
  "credential_at t c \<longleftrightarrow> (\<exists>n p. tree_get t c = Some n \<and> n_kind n = Credential p)"

lemma credential_not_folder: "credential_at t c \<Longrightarrow> \<not> folder_at t c"
  by (auto simp: credential_at_def folder_at_def)

lemma credential_at_relocate [simp]: "credential_at (relocate old new order i t) = credential_at t"
  by (auto simp: credential_at_def tree_simps fun_eq_iff)

lemma non_folder_leaf:
  assumes "tree_wf t" and "x \<in> tree_verts t" and "\<not> folder_at t c"
    and "chain (tree_up t) (Some x) (us @ c # vs)"
  shows "us = []"
proof (rule ccontr)
  assume "us \<noteq> []"
  then obtain us' where us: "us = x # us'" using assms(4) by (cases us) auto
  with assms(4) have "chain (tree_up t) (tree_up t x) (us' @ c # vs)" by simp
  then have "\<forall>y\<in>set (us' @ c # vs). folder_at t y"
    using tree_wfD(3) [OF assms(1)] assms(2) by (intro chain_folders [OF assms(1)]) (auto simp: parents_ok_def)
  with assms(3) show False by simp
qed

lemma relocate_attached_wf:
  assumes wf: "tree_wf t" and c: "credential_at t c"
    and parent: "\<And>q. new = Some q \<Longrightarrow> folder_at t q"
    and ys: "chain (tree_up t) new ys" "length ys < MAX_TREE_DEPTH"
  shows "tree_wf (relocate_attached new order c t)"
    and "chain (tree_up (relocate_attached new order c t)) new ys"
proof -
  have cv: "c \<in> tree_verts t" using c by (auto simp: credential_at_def tree_verts_iff)
  have old: "(case tree_get t c of None \<Rightarrow> None | Some n \<Rightarrow> n_parent_id n) = tree_up t c"
    by (simp add: tree_up_def)
  have notin: "c \<notin> set ys"
    using chain_folders [OF wf ys(1) parent] credential_not_folder [OF c] by blast
  show "tree_wf (relocate_attached new order c t)"
    unfolding relocate_attached_def
  proof (rule relocate_wf [OF wf cv old parent ys(1) notin])
    show "length us + 1 + length ys \<le> MAX_TREE_DEPTH"
      if "x \<in> tree_verts t" "chain (tree_up t) (Some x) (us @ c # vs)" for x us vs
      using non_folder_leaf [OF wf that(1) credential_not_folder [OF c] that(2)] ys(2) by simp
  qed
  show "chain (tree_up (relocate_attached new order c t)) new ys"
    unfolding relocate_attached_def relocate_same(2) [OF cv] using ys(1) notin by (rule chain_upd_off)
qed

lemma relocate_attached_simps [simp]:
  "credential_at (relocate_attached new order c t) = credential_at t"
  by (simp add: relocate_attached_def)

lemma relocate_attached_folder:
  "credential_at t c \<Longrightarrow> folder_at (relocate_attached new order c t) = folder_at t"
  unfolding relocate_attached_def
  by (rule relocate_same(3)) (auto simp: credential_at_def tree_verts_iff)

lemma relocate_all_wf:
  assumes "tree_wf t" and "\<forall>c\<in>set cs. credential_at t c"
    and "\<And>q. new = Some q \<Longrightarrow> folder_at t q"
    and "chain (tree_up t) new ys" and "length ys < MAX_TREE_DEPTH"
  shows "tree_wf (fold (relocate_attached new order) cs t)"
  using assms
proof (induction cs arbitrary: t)
  case Nil
  then show ?case by simp
next
  case (Cons c cs)
  then have c: "credential_at t c" by simp
  note step = relocate_attached_wf [OF Cons.prems(1) c Cons.prems(3,4,5), of order]
  show ?case
    using Cons.IH [OF step(1) _ _ step(2) Cons.prems(5)] Cons.prems(2,3)
    by (simp add: relocate_attached_folder [OF c])
qed

lemma set_tree_nodes:
  assumes "nodes_ok t"
  shows "n \<in> set (tree_nodes t) \<longleftrightarrow> tree_get t (n_id n) = Some n"
proof -
  have "(k, n) \<in> set (t_nodes t) \<longleftrightarrow> tree_get t k = Some n" for k
    using assms set_of_distinct_keys [of "t_nodes t" k n] by (simp add: nodes_ok_def tree_get_def)
  then have "n \<in> set (tree_nodes t) \<longleftrightarrow> (\<exists>k. tree_get t k = Some n)"
    by (force simp: tree_nodes_def image_iff)
  with assms show ?thesis by (auto simp: nodes_ok_def)
qed

lemma set_ids_filter:
  assumes "nodes_ok t"
  shows "c \<in> set (map n_id (filter P (tree_nodes t))) \<longleftrightarrow> (\<exists>n. tree_get t c = Some n \<and> P n)"
proof -
  have "\<And>k n. tree_get t k = Some n \<Longrightarrow> n_id n = k" using assms by (simp add: nodes_ok_def)
  then show ?thesis using set_tree_nodes [OF assms] by (auto simp: image_iff)
qed

lemma set_attached_credentials:
  assumes "nodes_ok t"
  shows "c \<in> set (attached_credentials t i) \<longleftrightarrow>
    (\<exists>n p. tree_get t c = Some n \<and> n_kind n = Credential p \<and> cr_attached_to p = Some i)"
  unfolding attached_credentials_def set_sort set_ids_filter [OF assms]
  by (auto simp: belongs_to_def split: option.splits)

lemma attached_credentials_relocate [simp]:
  "attached_credentials (relocate old new order j t) i = attached_credentials t i"
proof -
  have "map n_id (filter P (map snd (hm_modify j (place_node new order) m)))
      = map n_id (filter P (map snd m))"
    if "\<And>n. P (place_node new order n) = P n" for P and m :: "(node_id, node) hash_map"
    by (induction m) (auto simp: hm_modify_def that split: if_splits)
  then show ?thesis by (simp add: attached_credentials_def tree_nodes_def relocate_def Let_def)
qed

lemma move_node_Inr:
  assumes wf: "tree_wf t" and pv: "preview_move t i new = Inr patch"
  shows "move_node i new order t =
    (Inr patch, fold (relocate_attached new order) (attached_credentials t i)
                  (relocate (tree_up t i) new order i t))"
proof -
  obtain n where n: "tree_get t i = Some n"
    using preview_move_ok(1) [OF assms] by (auto simp: tree_verts_iff)
  then have "tree_up t i = n_parent_id n" by (simp add: tree_up_def)
  with n pv show ?thesis by (simp add: move_node_def Let_def)
qed

lemma move_node_Inl:
  assumes "preview_move t i new = Inl e"
  shows "move_node i new order t = (Inl e, t)"
  using assms by (simp add: move_node_def)

lemma move_node_wf:
  assumes wf: "tree_wf t"
  shows "tree_wf (snd (move_node i new order t))"
proof (cases "preview_move t i new")
  case (Inl e)
  with wf show ?thesis by (simp add: move_node_Inl)
next
  case (Inr patch)
  note ok = preview_move_ok [OF wf Inr]
  let ?t = "relocate (tree_up t i) new order i t"
  obtain ys where ys: "chain (tree_up t) new ys" "i \<notin> set ys"
    and bound: "\<And>x us vs. x \<in> tree_verts t \<Longrightarrow> chain (tree_up t) (Some x) (us @ i # vs)
         \<Longrightarrow> length us + 1 + length ys \<le> MAX_TREE_DEPTH"
    using ok(4) by blast
  have wf1: "tree_wf ?t" by (rule relocate_wf [OF wf ok(1) refl ok(2) ys bound])
  have creds: "\<forall>c\<in>set (attached_credentials t i). credential_at ?t c"
    using set_attached_credentials [OF tree_wfD(1) [OF wf]] by (auto simp: credential_at_def)
  have ch: "chain (tree_up ?t) new ys"
    unfolding relocate_same(2) [OF ok(1)] using ys by (rule chain_upd_off)
  have parent: "\<And>q. new = Some q \<Longrightarrow> folder_at ?t q"
    using ok(2) by (simp add: relocate_same(3) [OF ok(1)])
  obtain vs where "chain (tree_up t) (Some i) ([] @ i # vs)"
    using tree_forest.rooted [OF wf ok(1)] by (auto simp: chain_Some_iff)
  then have "length ys < MAX_TREE_DEPTH" using bound [OF ok(1), of "[]" vs] by simp
  with relocate_all_wf [OF wf1 creds parent ch] show ?thesis
    by (simp add: move_node_Inr [OF wf Inr])
qed

text \<open>The rows a move changes.\<close>

lemma tree_get_relocate_attached [tree_simps]:
  "tree_get (relocate_attached new order c t) =
     (tree_get t)(c := map_option (place_node new order) (tree_get t c))"
  by (simp add: relocate_attached_def tree_simps)

lemma relocate_all_get:
  "tree_get (fold (relocate_attached new order) cs t) j =
     map_option (place_node new order ^^ count_list cs j) (tree_get t j)"
proof (induction cs arbitrary: t)
  case Nil
  then show ?case by (simp add: option.map_ident)
next
  case (Cons c cs)
  have "place_node new order ^^ Suc k = (place_node new order ^^ k) \<circ> place_node new order" for k
    by (rule funpow_Suc_right)
  then show ?case
    by (cases "c = j") (simp_all add: Cons.IH tree_simps option.map_comp comp_def del: funpow.simps)
qed

end
