(* ===== verification/Tree_Delete.thy ===== *)
theory Tree_Delete
  imports Tree_Inv
begin

text \<open>
  Soft deletion. \<open>tombstone_refs\<close>, which walks the fields of a node one by one, is shown
  equal to applying one update to every reference the node holds; from that follow which
  nodes are tombstoned and which references survive.
\<close>

section \<open>Tombstoning the references of one node\<close>

text \<open>The reference-level update: a reference to a deleted node becomes its tombstone.\<close>

definition bury :: "(node_id, rstring) hash_map \<Rightarrow> node_ref \<Rightarrow> node_ref" where
  "bury deleted r =
     (case map_of deleted (ref_id r) of None \<Rightarrow> r | Some nm \<Rightarrow> snd (ref_tombstone nm r))"

definition buries :: "(node_id, rstring) hash_map \<Rightarrow> node_ref \<Rightarrow> bool" where
  "buries deleted r \<longleftrightarrow> \<not> ref_is_deleted r \<and> map_of deleted (ref_id r) \<noteq> None"

lemma ref_tombstone_simps [simp]:
  "fst (ref_tombstone nm r) \<longleftrightarrow> \<not> ref_is_deleted r"
  "ref_id (snd (ref_tombstone nm r)) = ref_id r"
  "ref_is_deleted (snd (ref_tombstone nm r))"
  by (cases r; simp)+

lemma ref_id_bury [simp]: "ref_id (bury deleted r) = ref_id r"
  by (simp add: bury_def split: option.split)

lemma bury_dead: "map_of deleted (ref_id r) \<noteq> None \<Longrightarrow> ref_is_deleted (bury deleted r)"
  by (auto simp: bury_def)

lemma bury_other: "map_of deleted (ref_id r) = None \<Longrightarrow> bury deleted r = r"
  by (simp add: bury_def)

lemma tombstone_list_map:
  "tombstone_list f xs = (\<exists>x\<in>set xs. fst (f x), map (\<lambda>x. snd (f x)) xs)"
  by (induction xs) (auto split: prod.splits)

lemma tombstone_member_bury:
  "tombstone_member deleted r = (buries deleted r, bury deleted r)"
  by (cases r) (auto simp: tombstone_member_def buries_def bury_def split: option.split)

lemma tombstone_credential_field_bury:
  "tombstone_credential_field deleted field =
     ((\<exists>c. field = Explicit c \<and> buries deleted (as_node_ref c)),
      credential_map_refs (bury deleted) field)"
proof (cases field)
  case (Explicit c)
  then show ?thesis
    by (cases c; cases "as_node_ref c")
      (auto simp: tombstone_credential_field_def credential_ref_id_def credential_ref_tombstone_def
        credential_map_refs_def buries_def bury_def split: option.split)
qed (auto simp: tombstone_credential_field_def credential_map_refs_def)

lemma tombstone_hop_bury:
  "tombstone_hop deleted h =
     (list_ex (buries deleted) (hop_refs h), hop_map_refs (bury deleted) h)"
proof -
  obtain c where [simp]: "h_credential h = c" by simp
  have "(case map_of deleted (ref_id (h_node h)) of
      Some nm \<Rightarrow> ref_tombstone nm (h_node h) | None \<Rightarrow> (False, h_node h))
    = (buries deleted (h_node h), bury deleted (h_node h))"
    using tombstone_member_bury [of deleted "h_node h"] by (simp add: tombstone_member_def)
  moreover have "(case c of None \<Rightarrow> (False, None)
      | Some credential \<Rightarrow>
          (case map_of deleted (credential_ref_id credential) of
             Some nm \<Rightarrow> (case credential_ref_tombstone nm credential of (ch, c') \<Rightarrow> (ch, Some c'))
           | None \<Rightarrow> (False, Some credential)))
    = ((\<exists>x. c = Some x \<and> buries deleted (as_node_ref x)),
       map_option (\<lambda>x. CredentialRef (bury deleted (as_node_ref x))) c)"
  proof (cases c)
    case (Some x)
    then show ?thesis
      by (cases x; cases "as_node_ref x")
        (auto simp: credential_ref_id_def credential_ref_tombstone_def buries_def bury_def
          split: option.split)
  qed simp
  ultimately show ?thesis
    by (auto simp: tombstone_hop_def hop_map_refs_def hop_refs_def split: option.split)
qed

lemma tombstone_gateway_field_bury:
  "tombstone_gateway_field deleted field =
     ((\<exists>chain. field = Explicit chain \<and>
         list_ex (buries deleted) (concat (map hop_refs (gc_hops chain)))),
      gateway_map_refs (bury deleted) field)"
  by (cases field)
    (auto simp: tombstone_gateway_field_def gateway_map_refs_def tombstone_list_map
      tombstone_hop_bury list_ex_iff)

lemma tombstone_refs_bury:
  "tombstone_refs deleted n =
     (list_ex (buries deleted) (node_references n), references_mut (bury deleted) n)"
proof (cases "n_kind n")
  case (Group g)
  then show ?thesis
    by (simp add: tombstone_refs_def references_mut_def kind_map_refs_def node_references_def
        field_defs tombstone_list_map tombstone_member_bury list_ex_iff)
next
  case (Folder f)
  then show ?thesis
    by (auto simp: tombstone_refs_def references_mut_def kind_map_refs_def node_references_def
        field_defs tombstone_credential_field_bury tombstone_gateway_field_bury
        split: inherited.splits)
next
  case (Connection c)
  then show ?thesis
    by (auto simp: tombstone_refs_def references_mut_def kind_map_refs_def node_references_def
        field_defs tombstone_credential_field_bury tombstone_gateway_field_bury
        split: inherited.splits)
next
  case (Credential c)
  then show ?thesis
    by (cases n) (simp add: tombstone_refs_def references_mut_def kind_map_refs_def
        node_references_def field_defs)
next
  case Separator
  then show ?thesis
    by (cases n) (simp add: tombstone_refs_def references_mut_def kind_map_refs_def
        node_references_def field_defs)
qed

lemma node_references_mut: "node_references (references_mut f n) = map f (node_references n)"
proof -
  have hop: "hop_refs (hop_map_refs f h) = map f (hop_refs h)" for h
    by (cases "h_credential h") (simp_all add: hop_refs_def hop_map_refs_def)
  have gw: "concat (map hop_refs (map (hop_map_refs f) hops)) = map f (concat (map hop_refs hops))"
    for hops by (induction hops) (simp_all add: hop)
  show ?thesis
    using gw by (cases "n_kind n")
      (auto simp: node_references_def references_mut_def kind_map_refs_def field_defs
        credential_map_refs_def gateway_map_refs_def split: inherited.splits)
qed

lemma references_mut_simps [simp]:
  "n_id (references_mut f n) = n_id n"
  "n_parent_id (references_mut f n) = n_parent_id n"
  "n_sort_order (references_mut f n) = n_sort_order n"
  "n_deleted_at (references_mut f n) = n_deleted_at n"
  "n_name (references_mut f n) = n_name n"
  "n_revision (references_mut f n) = n_revision n"
  "is_container (n_kind (references_mut f n)) = is_container (n_kind n)"
  by (simp_all add: references_mut_def kind_map_refs_def split: node_kind.split)

lemma node_touch_simps [simp]:
  "n_id (node_touch now n) = n_id n" "n_parent_id (node_touch now n) = n_parent_id n"
  "n_sort_order (node_touch now n) = n_sort_order n" "n_kind (node_touch now n) = n_kind n"
  "n_deleted_at (node_touch now n) = n_deleted_at n" "n_name (node_touch now n) = n_name n"
  "n_updated_at (node_touch now n) = now"
  "n_revision (node_touch now n) = saturating_add (n_revision n) 1"
  "node_references (node_touch now n) = node_references n"
  by (simp_all add: node_touch_def node_references_def field_defs)

section \<open>The two loops\<close>

definition mark_deleted :: "i64 \<Rightarrow> node \<Rightarrow> node" where
  "mark_deleted now n =
     (if n_deleted_at n = None then node_touch now (n\<lparr>n_deleted_at := Some now\<rparr>) else n)"

lemma mark_deleted_simps [simp]:
  "n_id (mark_deleted now n) = n_id n" "n_parent_id (mark_deleted now n) = n_parent_id n"
  "n_sort_order (mark_deleted now n) = n_sort_order n" "n_kind (mark_deleted now n) = n_kind n"
  "n_name (mark_deleted now n) = n_name n"
  "n_deleted_at (mark_deleted now n) \<noteq> None"
  "mark_deleted now (mark_deleted now n) = mark_deleted now n"
  "validate_node (mark_deleted now n) = validate_node n"
  by (auto simp: mark_deleted_def)

lemma tombstone_loop_effect:
  assumes "tombstone_loop now is m = (done, m')"
  shows "map fst m' = map fst m"
    and "map_of m' j = map_option (if j \<in> set is then mark_deleted now else id) (map_of m j)"
    and "distinct is \<Longrightarrow>
      done = filter (\<lambda>i. \<exists>n. map_of m i = Some n \<and> n_deleted_at n = None) is"
proof -
  have "map fst m' = map fst m
      \<and> map_of m' j = map_option (if j \<in> set is then mark_deleted now else id) (map_of m j)
      \<and> (distinct is \<longrightarrow>
          done = filter (\<lambda>i. \<exists>n. map_of m i = Some n \<and> n_deleted_at n = None) is)"
    using assms
  proof (induction "is" arbitrary: m "done")
    case Nil
    then show ?case by (simp add: option.map_ident)
  next
    case (Cons i "is")
    show ?case
    proof (cases "\<exists>n. map_of m i = Some n \<and> n_deleted_at n = None")
      case True
      then obtain n where n: "map_of m i = Some n" "n_deleted_at n = None" by blast
      let ?m = "hm_modify i (\<lambda>_. node_touch now (n\<lparr>n_deleted_at := Some now\<rparr>)) m"
      from Cons.prems n obtain done' where
        d: "tombstone_loop now is ?m = (done', m')" "done = i # done'"
        by (auto split: prod.splits)
      have mark: "node_touch now (n\<lparr>n_deleted_at := Some now\<rparr>) = mark_deleted now n"
        using n by (simp add: mark_deleted_def)
      have "filter (\<lambda>i. \<exists>n. map_of ?m i = Some n \<and> n_deleted_at n = None) is
          = filter (\<lambda>i. \<exists>n. map_of m i = Some n \<and> n_deleted_at n = None) is" if "i \<notin> set is"
        using that by (intro filter_cong) auto
      with Cons.IH [OF d(1)] d(2) n show ?thesis by (auto simp: mark)
    next
      case False
      then have "tombstone_loop now is m = (done, m')"
        using Cons.prems by (auto split: option.splits if_splits)
      moreover have "map_option (mark_deleted now) (map_of m i) = map_of m i"
        using False by (cases "map_of m i") (auto simp: mark_deleted_def)
      ultimately show ?thesis using Cons.IH [of m "done"] False by (auto simp: option.map_id option.map_ident)
    qed
  qed
  then show "map fst m' = map fst m"
    and "map_of m' j = map_option (if j \<in> set is then mark_deleted now else id) (map_of m j)"
    and "distinct is \<Longrightarrow>
      done = filter (\<lambda>i. \<exists>n. map_of m i = Some n \<and> n_deleted_at n = None) is"
    by blast+
qed

definition untarget :: "i64 \<Rightarrow> (node_id, rstring) hash_map \<Rightarrow> node \<Rightarrow> node" where
  "untarget now deleted n =
     (if list_ex (buries deleted) (node_references n)
      then node_touch now (references_mut (bury deleted) n)
      else references_mut (bury deleted) n)"

lemma untarget_simps [simp]:
  "n_id (untarget now deleted n) = n_id n"
  "n_parent_id (untarget now deleted n) = n_parent_id n"
  "n_sort_order (untarget now deleted n) = n_sort_order n"
  "n_deleted_at (untarget now deleted n) = n_deleted_at n"
  "is_container (n_kind (untarget now deleted n)) = is_container (n_kind n)"
  "node_references (untarget now deleted n) = map (bury deleted) (node_references n)"
  "valid_node (untarget now deleted n) \<longleftrightarrow> valid_node n"
  by (simp_all add: untarget_def node_references_mut validate_node_references_mut)

lemma untarget_loop_effect:
  assumes "untarget_loop now deleted is m = (done, m')" and "distinct is"
  shows "map fst m' = map fst m"
    and "map_of m' j = map_option (if j \<in> set is then untarget now deleted else id) (map_of m j)"
    and "done = filter
      (\<lambda>i. \<exists>n. map_of m i = Some n \<and> list_ex (buries deleted) (node_references n)) is"
proof -
  have "map fst m' = map fst m
      \<and> map_of m' j = map_option (if j \<in> set is then untarget now deleted else id) (map_of m j)
      \<and> done = filter
          (\<lambda>i. \<exists>n. map_of m i = Some n \<and> list_ex (buries deleted) (node_references n)) is"
    using assms
  proof (induction "is" arbitrary: m "done")
    case Nil
    then show ?case by (simp add: option.map_ident)
  next
    case (Cons i "is")
    show ?case
    proof (cases "map_of m i")
      case None
      with Cons show ?thesis by (auto simp: option.map_id option.map_ident)
    next
      case (Some n)
      let ?m = "hm_modify i (\<lambda>_. untarget now deleted n) m"
      let ?ch = "list_ex (buries deleted) (node_references n)"
      obtain done' where d: "untarget_loop now deleted is ?m = (done', m')"
          "done = (if ?ch then i # done' else done')"
        using Cons.prems(1) Some
        by (cases ?ch) (auto simp: tombstone_refs_bury untarget_def split: prod.splits)
      have i: "i \<notin> set is" "distinct is" using Cons.prems(2) by auto
      then have "filter (\<lambda>i. \<exists>n. map_of ?m i = Some n \<and> list_ex (buries deleted) (node_references n)) is
        = filter (\<lambda>i. \<exists>n. map_of m i = Some n \<and> list_ex (buries deleted) (node_references n)) is"
        by (intro filter_cong) auto
      with Cons.IH [OF d(1) i(2)] d(2) Some i show ?thesis by auto
    qed
  qed
  then show "map fst m' = map fst m"
    and "map_of m' j = map_option (if j \<in> set is then untarget now deleted else id) (map_of m j)"
    and "done = filter
      (\<lambda>i. \<exists>n. map_of m i = Some n \<and> list_ex (buries deleted) (node_references n)) is"
    by blast+
qed

section \<open>What a deletion takes\<close>

text \<open>The nodes a deletion of \<open>i\<close> takes: its subtree and the credentials attached into it.\<close>

definition doomed :: "tree \<Rightarrow> node_id \<Rightarrow> node_id list" where
  "doomed t i = preorder t i @ attached_outside t (preorder t i)"

lemma attached_into_iff:
  "(case as_credential k of
      None \<Rightarrow> False
    | Some props \<Rightarrow> (case cr_attached_to props of None \<Rightarrow> False | Some owner \<Rightarrow> owner \<in> S))
   \<longleftrightarrow> (\<exists>p owner. k = Credential p \<and> cr_attached_to p = Some owner \<and> owner \<in> S)"
  by (cases k) (auto split: option.split)

lemma set_attached_outside:
  assumes "nodes_ok t"
  shows "c \<in> set (attached_outside t owners) \<longleftrightarrow>
    c \<notin> set owners \<and> (\<exists>n p owner. tree_get t c = Some n \<and> n_kind n = Credential p
      \<and> cr_attached_to p = Some owner \<and> owner \<in> set owners)"
  unfolding attached_outside_def set_filter mem_Collect_eq set_ids_filter [OF assms]
    attached_into_iff
  by blast

lemma map_ids_keys:
  assumes "nodes_ok t"
  shows "map n_id (tree_nodes t) = map fst (t_nodes t)"
proof -
  have "(n_id \<circ> snd) e = fst e" if e: "e \<in> set (t_nodes t)" for e
  proof -
    have "tree_get t (fst e) = Some (snd e)"
      using assms e by (simp add: nodes_ok_def tree_get_def)
    with assms show ?thesis by (simp add: nodes_ok_def)
  qed
  then have "map (n_id \<circ> snd) (t_nodes t) = map fst (t_nodes t)" by (rule map_cong [OF refl])
  then show ?thesis by (simp add: tree_nodes_def)
qed

lemma distinct_attached_outside:
  assumes "nodes_ok t"
  shows "distinct (attached_outside t owners)"
proof -
  have "distinct (map n_id (tree_nodes t))"
    unfolding map_ids_keys [OF assms] using assms by (simp add: nodes_ok_def)
  then show ?thesis unfolding attached_outside_def by (intro distinct_filter distinct_map_filter)
qed

lemma distinct_doomed:
  assumes "tree_wf t" and "i \<in> tree_verts t"
  shows "distinct (doomed t i)"
  using distinct_preorder [OF assms] distinct_attached_outside [OF tree_wfD(1) [OF assms(1)]]
    set_attached_outside [OF tree_wfD(1) [OF assms(1)]]
  by (auto simp: doomed_def)

lemma map_of_deleted_names:
  assumes "nodes_ok t"
  shows "map_of (deleted_names t ids) j =
    (if j \<in> set ids then map_option n_name (tree_get t j) else None)"
proof -
  have "n_id n = k" if "tree_get t k = Some n" for k n
    using assms that by (simp add: nodes_ok_def)
  then show ?thesis
    by (induction ids) (auto simp: deleted_names_def List.map_filter_simps split: option.split)
qed

lemma soft_delete_missing:
  assumes "i \<notin> tree_verts t"
  shows "soft_delete i now t = (Inl (NodeNotFound i), t)"
  using assms by (simp add: soft_delete_def subtree_def descendants_def tree_contains_iff)

lemma soft_delete_effect:
  assumes wf: "tree_wf t" and i: "i \<in> tree_verts t" and sd: "soft_delete i now t = (r, t')"
  defines "deleted \<equiv> deleted_names t (doomed t i)"
  shows "t_children t' = t_children t" and "map fst (t_nodes t') = map fst (t_nodes t)"
    and "tree_get t' j =
      map_option (if j \<in> set (doomed t i) then mark_deleted now else untarget now deleted) (tree_get t j)"
    and "r = Inr (patch_default
      \<lparr>p_tombstoned := filter (\<lambda>j. \<exists>n. tree_get t j = Some n \<and> n_deleted_at n = None) (doomed t i),
       p_updated := sort (filter (\<lambda>j. \<exists>n. tree_get t j = Some n \<and> j \<notin> set (doomed t i)
         \<and> list_ex (buries deleted) (node_references n)) (map fst (t_nodes t)))\<rparr>)"
proof -
  note ok = tree_wfD(1) [OF wf]
  obtain ts m1 where m1: "tombstone_loop now (doomed t i) (t_nodes t) = (ts, m1)" by fastforce
  note l1 = tombstone_loop_effect [OF m1]
  define others where "others = filter (\<lambda>j. map_of deleted j = None) (map fst m1)"
  obtain up m2 where m2: "untarget_loop now deleted others m1 = (up, m2)" by fastforce
  have dist: "distinct others"
    using ok by (simp add: others_def l1(1) nodes_ok_def del: filter_map)
  note l2 = untarget_loop_effect [OF m2 dist]
  have sd': "r = Inr (patch_default\<lparr>p_tombstoned := ts, p_updated := sort up\<rparr>)" "t' = t\<lparr>t_nodes := m2\<rparr>"
    using sd m1 m2 unfolding soft_delete_def subtree_preorder [OF wf i] doomed_def [symmetric]
      deleted_def others_def by (auto simp: Let_def doomed_def)
  show "t_children t' = t_children t" "map fst (t_nodes t') = map fst (t_nodes t)"
    using sd'(2) l1(1) l2(1) by simp_all
  have others: "j \<in> set others \<longleftrightarrow> j \<in> tree_verts t \<and> j \<notin> set (doomed t i)" for j
    unfolding others_def l1(1) deleted_def set_filter mem_Collect_eq map_of_deleted_names [OF ok]
    by (auto simp: tree_verts_def tree_get_map_of dom_map_of_conv_image_fst [symmetric] domIff)
  show "tree_get t' j =
      map_option (if j \<in> set (doomed t i) then mark_deleted now else untarget now deleted) (tree_get t j)"
    using sd'(2) l1(2) [of j] l2(2) [of j] others [of j]
    by (auto simp: tree_get_def tree_verts_def option.map_comp option.map_id)
  have "up = filter (\<lambda>j. \<exists>n. tree_get t j = Some n \<and> j \<notin> set (doomed t i)
         \<and> list_ex (buries deleted) (node_references n)) (map fst (t_nodes t))"
    unfolding l2(3) others_def l1(1) filter_filter
    using l1(2) by (intro filter_cong)
      (auto simp: deleted_def map_of_deleted_names [OF ok] tree_get_def split: if_splits)
  with sd'(1) l1(3) [OF distinct_doomed [OF wf i]]
  show "r = Inr (patch_default
      \<lparr>p_tombstoned := filter (\<lambda>j. \<exists>n. tree_get t j = Some n \<and> n_deleted_at n = None) (doomed t i),
       p_updated := sort (filter (\<lambda>j. \<exists>n. tree_get t j = Some n \<and> j \<notin> set (doomed t i)
         \<and> list_ex (buries deleted) (node_references n)) (map fst (t_nodes t)))\<rparr>)"
    by (simp add: tree_get_def)
qed

lemma soft_delete_wf:
  assumes wf: "tree_wf t"
  shows "tree_wf (snd (soft_delete i now t))"
proof (cases "i \<in> tree_verts t")
  case False
  with wf show ?thesis by (simp add: soft_delete_missing)
next
  case True
  obtain r t' where sd: "soft_delete i now t = (r, t')" by fastforce
  note eff = soft_delete_effect [OF wf True sd]
  have "tree_wf t'"
  proof (rule similar_wf [OF wf eff(1,2)])
    show "rel_option similar (tree_get t j) (tree_get t' j)" for j
      unfolding eff(3) by (cases "tree_get t j") (simp_all add: similar_def)
  qed
  with sd show ?thesis by simp
qed

end
