(* ===== verification/Tree_Load.thy ===== *)
theory Tree_Load
  imports Tree_Delete
begin

text \<open>
  Loading a stored tree. \<open>from_nodes\<close> accepts only lists of nodes that make a well-formed
  tree, and accepts every list that \<open>into_nodes\<close> yields from one, giving the same nodes and
  the same display order back.
\<close>

section \<open>The node table\<close>

lemma update_append: "map_of m k = None \<Longrightarrow> AList.update k v m = m @ [(k, v)]"
  by (induction m) (auto split: if_splits)

lemma load_nodes_Inr_iff:
  "load_nodes ns m = Inr m' \<longleftrightarrow>
     (\<forall>n\<in>set ns. valid_node n \<and> map_of m (n_id n) = None) \<and> distinct (map n_id ns)
     \<and> m' = m @ map (\<lambda>n. (n_id n, n)) ns"
proof (induction ns arbitrary: m)
  case Nil
  then show ?case by auto
next
  case (Cons n ns)
  show ?case
  proof (cases "valid_node n \<and> map_of m (n_id n) = None")
    case True
    then have "load_nodes (n # ns) m = load_nodes ns (m @ [(n_id n, n)])"
      by (simp add: update_append)
    moreover have "map_of (m @ [(n_id n, n)]) k = None \<longleftrightarrow> map_of m k = None \<and> k \<noteq> n_id n" for k
      by (auto simp: map_add_def split: option.splits)
    ultimately show ?thesis using True by (auto simp: Cons.IH image_iff)
  next
    case False
    then show ?thesis by (auto simp: result_simps)
  qed
qed

section \<open>The child lists before sorting\<close>

definition under :: "(node_id \<times> node_id option) list \<Rightarrow> node_id option \<Rightarrow> node_id list" where
  "under ps q = map fst (filter (\<lambda>(_, p). p = q) ps)"

lemma place_nodes_Inr:
  assumes "place_nodes ps t = Inr t'"
  shows "t_nodes t' = t_nodes t"
    and "(i, Some q) \<in> set ps \<Longrightarrow> folder_at t q"
    and "children t' p = children t p @ under ps p"
    and "index_keys_ok t \<Longrightarrow> index_keys_ok t'"
proof -
  have "t_nodes t' = t_nodes t \<and> (\<forall>i q. (i, Some q) \<in> set ps \<longrightarrow> folder_at t q)
      \<and> (\<forall>p. children t' p = children t p @ under ps p) \<and> (index_keys_ok t \<longrightarrow> index_keys_ok t')"
    using assms
  proof (induction ps t rule: place_nodes.induct)
    case (1 t)
    then show ?case by (simp add: under_def)
  next
    case (2 i parent rest t)
    let ?t = "t\<lparr>t_children := AList.update parent (children t parent @ [i]) (t_children t)\<rparr>"
    have ih: "t_nodes t' = t_nodes ?t \<and> (\<forall>i q. (i, Some q) \<in> set rest \<longrightarrow> folder_at ?t q)
      \<and> (\<forall>p. children t' p = children ?t p @ under rest p) \<and> (index_keys_ok ?t \<longrightarrow> index_keys_ok t')"
      using 2 by (auto simp: result_simps)
    have "\<forall>q. parent = Some q \<longrightarrow> folder_at t q"
      using 2(2) by (auto simp: result_simps folder_at_def split: if_splits)
    moreover have "index_keys_ok t \<Longrightarrow> index_keys_ok ?t" by (intro index_keys_update) simp_all
    ultimately show ?case using ih by (auto simp: tree_simps under_def)
  qed
  then show "t_nodes t' = t_nodes t" and "(i, Some q) \<in> set ps \<Longrightarrow> folder_at t q"
    and "children t' p = children t p @ under ps p" and "index_keys_ok t \<Longrightarrow> index_keys_ok t'"
    by blast+
qed

lemma place_nodes_ok:
  assumes "\<forall>(i, p)\<in>set ps. \<forall>q. p = Some q \<longrightarrow> folder_at t q"
  shows "\<exists>t'. place_nodes ps t = Inr t'"
  using assms
proof (induction ps t rule: place_nodes.induct)
  case (1 t)
  then show ?case by simp
next
  case (2 i parent rest t)
  have guard: "(case parent of None \<Rightarrow> Inr () | Some parent_id \<Rightarrow>
      and_then (ok_or (ParentNotFound parent_id) (tree_get t parent_id)) (\<lambda>parent_node.
        if \<not> is_container (n_kind parent_node) then Inl (NotAContainer parent_id) else Inr ()))
    = Inr ()"
    using 2(2) by (auto simp: folder_at_def split: option.split)
  show ?case using 2(1) [OF guard] 2(2) guard by (simp add: tree_simps)
qed

section \<open>Sorting the child lists\<close>

lemma children_sort_all:
  "children (fold sort_siblings ks t) q =
     (if q \<in> set ks then sort_key (sibling_key t) (children t q) else children t q)"
proof (induction ks arbitrary: t)
  case Nil
  then show ?case by simp
next
  case (Cons k ks)
  have "sort_key f (sort_key f xs) = sort_key f xs" for f :: "node_id \<Rightarrow> i64 \<times> node_id" and xs
    by (rule sort_key_id_if_sorted) simp
  then show ?case by (simp add: Cons.IH tree_simps)
qed

lemma sort_all_nodes [simp]: "t_nodes (fold sort_siblings ks t) = t_nodes t"
  by (induction ks arbitrary: t) simp_all

lemma sort_all_index_keys: "index_keys_ok t \<Longrightarrow> index_keys_ok (fold sort_siblings ks t)"
  by (induction ks arbitrary: t) (simp_all add: index_keys_sort_siblings)

lemma children_outside: "q \<notin> set (map fst (t_children t)) \<Longrightarrow> children t q = []"
  by (simp add: children_def map_of_eq_None_iff [THEN iffD2])

section \<open>The whole load\<close>

definition parent_pairs :: "tree \<Rightarrow> (node_id \<times> node_id option) list" where
  "parent_pairs t = map (\<lambda>n. (n_id n, n_parent_id n)) (tree_nodes t)"

lemma from_nodes_Inr:
  assumes "from_nodes ns = Inr t"
  shows "t_nodes t = map (\<lambda>n. (n_id n, n)) ns" "\<forall>n\<in>set ns. valid_node n" "distinct (map n_id ns)"
    and "(i, Some q) \<in> set (parent_pairs t) \<Longrightarrow> folder_at t q"
    and "children t p = sort_key (sibling_key t) (under (parent_pairs t) p)"
    and "index_keys_ok t"
    and "i \<in> tree_verts t \<Longrightarrow> \<exists>d. depth t i = Inr d \<and> d \<le> MAX_TREE_DEPTH"
proof -
  let ?m = "map (\<lambda>n. (n_id n, n)) ns"
  let ?pairs = "map (\<lambda>n. (n_id n, n_parent_id n)) (map snd ?m)"
  from assms obtain m placed where l: "load_nodes ns [] = Inr m"
    and pl: "place_nodes (map (\<lambda>n. (n_id n, n_parent_id n)) (map snd m))
      \<lparr>t_nodes = m, t_children = []\<rparr> = Inr placed"
    and checked: "try_each (\<lambda>i. and_then (depth t i)
      (\<lambda>d. if d > MAX_TREE_DEPTH then Inl (DepthExceeded d) else Inr ())) (map fst (t_nodes t)) = Inr ()"
    and t: "t = fold sort_siblings (map fst (t_children placed)) placed"
    unfolding from_nodes_def and_then_Inr_iff Let_def by auto
  have load: "load_nodes ns [] = Inr ?m" and m: "m = ?m" using l by (simp_all add: load_nodes_Inr_iff)
  note pl = pl [unfolded m]
  have d: "\<exists>d. depth t i = Inr d \<and> d \<le> MAX_TREE_DEPTH" if "i \<in> set (map fst (t_nodes t))" for i
    using bspec [OF checked [unfolded try_each_Inr_iff] that]
    by (auto simp: and_then_Inr_iff split: if_splits)
  note pn = place_nodes_Inr [OF pl]
  have nodes: "t_nodes t = ?m" "t_nodes t = t_nodes placed" using t pn(1) by simp_all
  then show "t_nodes t = ?m" by simp
  show "\<forall>n\<in>set ns. valid_node n" "distinct (map n_id ns)"
    using load by (auto simp: load_nodes_Inr_iff)
  have pairs: "parent_pairs t = ?pairs" by (simp add: parent_pairs_def tree_nodes_def nodes(1))
  have folder: "folder_at \<lparr>t_nodes = ?m, t_children = []\<rparr> = folder_at t"
    by (rule same_nodes(5)) (simp add: nodes(1))
  show "(i, Some q) \<in> set (parent_pairs t) \<Longrightarrow> folder_at t q"
    using pn(2) unfolding pairs folder .
  have key: "sibling_key placed = sibling_key t" by (rule same_nodes(4)) (simp add: nodes(2))
  have "children placed p = under (parent_pairs t) p"
    using pn(3) [of p] unfolding pairs by (simp add: children_def)
  moreover have "children t p = sort_key (sibling_key t) (children placed p)"
    using children_outside [of p placed]
      children_sort_all [of "map fst (t_children placed)" placed p, folded t]
    by (auto simp: key)
  ultimately show "children t p = sort_key (sibling_key t) (under (parent_pairs t) p)" by simp
  show "index_keys_ok t"
    unfolding t by (intro sort_all_index_keys pn(4)) (simp add: index_keys_ok_def)
  show "i \<in> tree_verts t \<Longrightarrow> \<exists>d. depth t i = Inr d \<and> d \<le> MAX_TREE_DEPTH"
    using d [of i] by (simp add: tree_verts_def tree_get_map_of dom_map_of_conv_image_fst)
qed

lemma parent_pairs_iff:
  assumes "nodes_ok t"
  shows "(i, p) \<in> set (parent_pairs t) \<longleftrightarrow> i \<in> tree_verts t \<and> tree_up t i = p"
proof -
  have "n_id n = i" if "tree_get t i = Some n" for n using assms that by (simp add: nodes_ok_def)
  moreover have "(i, p) \<in> set (parent_pairs t) \<longleftrightarrow>
      (\<exists>n. n \<in> set (tree_nodes t) \<and> n_id n = i \<and> n_parent_id n = p)"
    by (auto simp: parent_pairs_def)
  ultimately have "(i, p) \<in> set (parent_pairs t) \<longleftrightarrow>
      (\<exists>n. tree_get t i = Some n \<and> n_parent_id n = p)"
    unfolding set_tree_nodes [OF assms] by blast
  then show ?thesis by (auto simp: tree_verts_iff tree_up_def)
qed

lemma under_iff:
  assumes "nodes_ok t"
  shows "i \<in> set (under (parent_pairs t) p) \<longleftrightarrow> i \<in> tree_verts t \<and> tree_up t i = p"
  using parent_pairs_iff [OF assms] by (force simp: under_def)

lemma distinct_under:
  assumes "nodes_ok t"
  shows "distinct (under (parent_pairs t) p)"
proof -
  have "map fst (parent_pairs t) = map fst (t_nodes t)"
    using map_ids_keys [OF assms] by (simp add: parent_pairs_def comp_def)
  then have "distinct (map fst (parent_pairs t))" using assms by (simp add: nodes_ok_def)
  then show ?thesis unfolding under_def by (rule distinct_map_filter)
qed

lemma from_nodes_wf:
  assumes "from_nodes ns = Inr t"
  shows "tree_wf t"
proof -
  note fn = from_nodes_Inr [OF assms]
  have get: "tree_get t i = Some n \<Longrightarrow> n_id n = i \<and> n \<in> set ns" for i n
    using map_of_SomeD [of "t_nodes t" i n] fn(1) by (auto simp: tree_get_def)
  have "map fst (t_nodes t) = map n_id ns" by (simp add: fn(1))
  with fn(3) have nodes: "nodes_ok t" by (simp add: nodes_ok_def get)
  have "values_ok t" using fn(2) get by (auto simp: values_ok_def)
  moreover have "parents_ok t"
    using fn(4) parent_pairs_iff [OF nodes] by (auto simp: parents_ok_def)
  moreover have "depth_ok t"
    using fn(7) by (fastforce simp: depth_ok_def dest: depth_Inr)
  moreover have "siblings_ok t p" for p
    using distinct_under [OF nodes] under_iff [OF nodes]
    by (auto simp: siblings_ok_def fn(5))
  ultimately show ?thesis using nodes fn(6) by (simp add: tree_wf_def)
qed

section \<open>Storing and loading\<close>

text \<open>Sort keys end in the id, so a set of siblings has one sorted order.\<close>

lemma inj_sibling_key: "inj (sibling_key t)"
  by (auto simp: inj_def sibling_key_def)

lemma children_determined:
  assumes "siblings_ok t p" and "siblings_ok t' p"
    and "t_nodes t = t_nodes t'"
  shows "children t p = children t' p"
proof (rule map_sorted_distinct_set_unique [where f = "sibling_key t"])
  have key: "sibling_key t' = sibling_key t" using same_nodes(4) [OF assms(3)] by simp
  have inj: "inj_on (sibling_key t) A" for A using inj_sibling_key by (rule inj_on_subset) simp
  then show "inj_on (sibling_key t) (set (children t p) \<union> set (children t' p))" .
  show "sorted (map (sibling_key t) (children t p))" "sorted (map (sibling_key t) (children t' p))"
    using assms(1,2) by (simp_all add: siblings_ok_def key)
  show "distinct (map (sibling_key t) (children t p))" "distinct (map (sibling_key t) (children t' p))"
    using assms(1,2) by (simp_all add: siblings_ok_def distinct_map inj)
  show "set (children t p) = set (children t' p)"
    using assms(1,2) same_nodes(2,3) [OF assms(3)] by (auto simp: siblings_ok_def)
qed

lemma into_nodes_entries:
  assumes "nodes_ok t"
  shows "map (\<lambda>n. (n_id n, n)) (into_nodes t) = t_nodes t"
proof -
  have "map fst (t_nodes t) = map n_id (into_nodes t)"
    using map_ids_keys [OF assms] by (simp add: into_nodes_def tree_nodes_def)
  moreover have "map snd (t_nodes t) = into_nodes t" by (simp add: into_nodes_def)
  ultimately have "zip (map n_id (into_nodes t)) (into_nodes t) = t_nodes t"
    using zip_map_fst_snd [of "t_nodes t"] by simp
  moreover have "zip (map n_id ns) ns = map (\<lambda>n. (n_id n, n)) ns" for ns
    by (induction ns) simp_all
  ultimately show ?thesis by metis
qed

lemma from_into_nodes:
  assumes wf: "tree_wf t"
  shows "\<exists>t'. from_nodes (into_nodes t) = Inr t' \<and> t_nodes t' = t_nodes t
    \<and> (\<forall>p. children t' p = children t p)"
proof -
  note ok = tree_wfD(1) [OF wf]
  let ?m = "t_nodes t"
  have into: "into_nodes t = tree_nodes t" by (simp add: into_nodes_def tree_nodes_def)
  have "\<forall>n\<in>set (tree_nodes t). valid_node n"
    unfolding set_tree_nodes [OF ok] using tree_wfD(2) [OF wf]
    by (auto simp: values_ok_def set_tree_nodes [OF ok])
  moreover have "distinct (map n_id (tree_nodes t))"
    unfolding map_ids_keys [OF ok] using ok by (simp add: nodes_ok_def)
  ultimately have "load_nodes (into_nodes t) [] = Inr ?m"
    using into_nodes_entries [OF ok] unfolding load_nodes_Inr_iff into by simp
  moreover have "folder_at \<lparr>t_nodes = ?m, t_children = []\<rparr> = folder_at t" by (rule same_nodes(5)) simp
  then have "\<forall>(i, p)\<in>set (parent_pairs t). \<forall>q. p = Some q
      \<longrightarrow> folder_at \<lparr>t_nodes = ?m, t_children = []\<rparr> q"
    using tree_wfD(3) [OF wf] parent_pairs_iff [OF ok] by (auto simp: parents_ok_def)
  then obtain placed where
    pl: "place_nodes (parent_pairs t) \<lparr>t_nodes = ?m, t_children = []\<rparr> = Inr placed"
    using place_nodes_ok by blast
  define t' where "t' = fold sort_siblings (map fst (t_children placed)) placed"
  have nodes: "t_nodes t' = ?m" using place_nodes_Inr(1) [OF pl] by (simp add: t'_def)
  have "\<exists>d. depth t' i = Inr d \<and> d \<le> MAX_TREE_DEPTH" if "i \<in> set (map fst (t_nodes t'))" for i
  proof -
    have i: "i \<in> tree_verts t"
      using that nodes by (simp add: tree_verts_def tree_get_map_of dom_map_of_conv_image_fst)
    then obtain xs where xs: "chain (tree_up t) (Some i) xs" using tree_forest.rooted [OF wf] by blast
    with depth_wf [OF wf i xs] chain_depth [OF wf i xs] depth_same_nodes [OF nodes] show ?thesis by simp
  qed
  then have "and_then (depth t' i)
      (\<lambda>d. if d > MAX_TREE_DEPTH then Inl (DepthExceeded d) else Inr ()) = Inr ()"
    if "i \<in> set (map fst (t_nodes t'))" for i
    using that by fastforce
  then have "try_each (\<lambda>i. and_then (depth t' i)
      (\<lambda>d. if d > MAX_TREE_DEPTH then Inl (DepthExceeded d) else Inr ())) (map fst (t_nodes t')) = Inr ()"
    unfolding try_each_Inr_iff by blast
  ultimately have loaded: "from_nodes (into_nodes t) = Inr t'"
    using pl by (simp add: from_nodes_def parent_pairs_def tree_nodes_def Let_def t'_def del: map_map)
  moreover have "children t' p = children t p" for p
    by (rule children_determined [OF tree_wfD(6) [OF from_nodes_wf [OF loaded]] tree_wfD(6) [OF wf] nodes])
  ultimately show ?thesis using nodes by blast
qed

end
