(* ===== verification/Machine.thy ===== *)
theory Machine
  imports Prelude
begin

text \<open>
  Sequences of operations on a state. A component whose every operation keeps an invariant
  keeps it along every sequence of calls, whichever of them fail; a component whose every
  operation only moves up in an order does so along every sequence.
\<close>

primrec run_machine :: "('op \<Rightarrow> 's \<Rightarrow> 'r \<times> 's) \<Rightarrow> 'op list \<Rightarrow> 's \<Rightarrow> 's" where
  "run_machine step [] s = s"
| "run_machine step (a # as) s = run_machine step as (snd (step a s))"

primrec run_allowed ::
  "('op \<Rightarrow> 's \<Rightarrow> 'r \<times> 's) \<Rightarrow> ('op \<Rightarrow> 's \<Rightarrow> bool) \<Rightarrow> 'op list \<Rightarrow> 's \<Rightarrow> bool" where
  "run_allowed step allowed [] s \<longleftrightarrow> True"
| "run_allowed step allowed (a # as) s \<longleftrightarrow> allowed a s \<and> run_allowed step allowed as (snd (step a s))"

locale guarded_machine =
  fixes step :: "'op \<Rightarrow> 's \<Rightarrow> 'r \<times> 's"
    and allowed :: "'op \<Rightarrow> 's \<Rightarrow> bool"
    and inv :: "'s \<Rightarrow> bool"
  assumes step_inv: "inv s \<Longrightarrow> allowed a s \<Longrightarrow> inv (snd (step a s))"
begin

lemma run_inv: "inv s \<Longrightarrow> run_allowed step allowed as s \<Longrightarrow> inv (run_machine step as s)"
  by (induction as arbitrary: s) (auto intro: step_inv)

end

locale ordered_machine = guarded_machine +
  fixes le :: "'b \<Rightarrow> 'b \<Rightarrow> bool"
  assumes le_refl: "le s s"
    and le_trans: "le s s' \<Longrightarrow> le s' s'' \<Longrightarrow> le s s''"
    and step_le: "inv s \<Longrightarrow> allowed a s \<Longrightarrow> le s (snd (step a s))"
begin

lemma run_le: "inv s \<Longrightarrow> run_allowed step allowed as s \<Longrightarrow> le s (run_machine step as s)"
proof (induction as arbitrary: s)
  case Nil
  then show ?case by (simp add: le_refl)
next
  case (Cons a as)
  then have "le s (snd (step a s))" "inv (snd (step a s))" by (simp_all add: step_le step_inv)
  with Cons show ?case by (auto intro: le_trans)
qed

end

end
