(* ===== verification/Tree_Ops.thy ===== *)
theory Tree_Ops
  imports Tree_Load Machine
begin

text \<open>
  The mutating interface of the tree as one machine, and the properties of each operation:
  what it changes, what it reports, when it is refused, and that the tree stays well-formed
  along every sequence of calls.
\<close>

section \<open>The tree as a machine\<close>

datatype tree_op =
    OpInsert node
  | OpUpdate node
  | OpMove node_id "node_id option" i64
  | OpDelete node_id i64

fun run_op :: "tree_op \<Rightarrow> tree \<Rightarrow> (core_error, tree_patch) result \<times> tree" where
  "run_op (OpInsert n) t = tree_insert n t"
| "run_op (OpUpdate n) t = tree_update n t"
| "run_op (OpMove i p order) t = move_node i p order t"
| "run_op (OpDelete i now) t = soft_delete i now t"

text \<open>
  The one call that can break the tree is an \<open>update\<close> that turns a folder into another kind
  of node: the code does not check that its children would be left under a non-folder.
\<close>

fun op_allowed :: "tree_op \<Rightarrow> tree \<Rightarrow> bool" where
  "op_allowed (OpUpdate n) t \<longleftrightarrow>
     (case tree_get t (n_id n) of
        None \<Rightarrow> True
      | Some existing \<Rightarrow> is_container (n_kind existing) \<longrightarrow> is_container (n_kind n))"
| "op_allowed (OpInsert n) t \<longleftrightarrow> True"
| "op_allowed (OpMove i p order) t \<longleftrightarrow> True"
| "op_allowed (OpDelete i now) t \<longleftrightarrow> True"

text \<open>No row is lost, no creation time changes, and revisions only grow.\<close>

definition rows_kept :: "tree \<Rightarrow> tree \<Rightarrow> bool" where
  "rows_kept t t' \<longleftrightarrow>
     (\<forall>i n. tree_get t i = Some n \<longrightarrow>
        (\<exists>n'. tree_get t' i = Some n' \<and> n_created_at n' = n_created_at n \<and> n_revision n \<le> n_revision n'))"

lemma saturating_add_ge: "(a :: 'a::len word) \<le> saturating_add a b"
proof -
  have "unat a < 2 ^ LENGTH('a)" by (rule unsigned_less)
  then have "unat a \<le> 2 ^ LENGTH('a) - 1" by linarith
  then show ?thesis by (simp add: word_le_nat_alt unat_saturating_add)
qed

lemma rows_kept_refl: "rows_kept t t"
  by (simp add: rows_kept_def)

lemma rows_kept_trans: "rows_kept s t \<Longrightarrow> rows_kept t u \<Longrightarrow> rows_kept s u"
  unfolding rows_kept_def by (fastforce intro: order_trans)

lemma rows_kept_mapped:
  assumes "\<And>i. tree_get t' i = map_option (f i) (tree_get t i)"
    and "\<And>i n. n_created_at (f i n) = n_created_at n \<and> n_revision n \<le> n_revision (f i n)"
  shows "rows_kept t t'"
  using assms by (simp add: rows_kept_def)

lemma place_node_kept:
  "n_created_at ((place_node p order ^^ k) n) = n_created_at n \<and>
   n_revision n \<le> n_revision ((place_node p order ^^ k) n)"
proof (induction k)
  case 0
  then show ?case by simp
next
  case (Suc k)
  then show ?case using saturating_add_ge [of "n_revision ((place_node p order ^^ k) n)" 1]
    by (auto intro: order_trans)
qed

lemma run_op_rows_kept:
  assumes wf: "tree_wf t"
  shows "rows_kept t (snd (run_op a t))"
proof (cases a)
  case (OpInsert n)
  show ?thesis
  proof (cases "insert_guard n t")
    case (Inr u)
    then have "tree_get t (n_id n) = None"
      using insert_guard_ok(2) [OF wf Inr] by (auto simp: tree_verts_def)
    with Inr OpInsert show ?thesis
      by (auto simp: tree_insert_def rows_kept_def tree_simps tree_get_map_of AList.update_conv')
  qed (simp add: OpInsert tree_insert_def rows_kept_refl)
next
  case (OpUpdate n)
  show ?thesis
  proof (cases "update_guard n t")
    case (Inr existing)
    then have "rows_kept t (update_store existing n t)"
      using update_guard_ok(2) [OF Inr] saturating_add_ge
      by (auto simp: rows_kept_def tree_get_update_store)
    with Inr OpUpdate show ?thesis by (simp add: tree_update_def Let_def split: sum.split)
  qed (simp add: OpUpdate tree_update_def rows_kept_refl)
next
  case (OpMove i p order)
  show ?thesis
  proof (cases "preview_move t i p")
    case (Inr patch)
    have "rows_kept t (relocate (tree_up t i) p order i t)"
      by (rule rows_kept_mapped [where f = "\<lambda>j. if j = i then place_node p order ^^ 1 else id"])
        (use place_node_kept [where k = 1 and p = p and order = order] in \<open>auto simp: tree_simps option.map_id\<close>)
    moreover have "rows_kept s (fold (relocate_attached p order) cs s)" for cs s
      by (rule rows_kept_mapped [OF relocate_all_get]) (rule place_node_kept)
    ultimately show ?thesis
      using OpMove move_node_Inr [OF wf Inr] by (auto intro: rows_kept_trans)
  qed (simp add: OpMove move_node_Inl rows_kept_refl)
next
  case (OpDelete i now)
  show ?thesis
  proof (cases "i \<in> tree_verts t")
    case True
    obtain r t' where sd: "soft_delete i now t = (r, t')" by fastforce
    have "rows_kept t t'"
      by (rule rows_kept_mapped [OF soft_delete_effect(3) [OF wf True sd]])
        (auto simp: mark_deleted_def untarget_def node_touch_def references_mut_def saturating_add_ge)
    with sd OpDelete show ?thesis by simp
  qed (simp add: OpDelete soft_delete_missing rows_kept_refl)
qed

interpretation tree_machine: ordered_machine run_op op_allowed tree_wf rows_kept
proof
  fix s a
  assume wf: "tree_wf s"
  show "rows_kept s (snd (run_op a s))" by (rule run_op_rows_kept [OF wf])
  assume allowed: "op_allowed a s"
  show "tree_wf (snd (run_op a s))"
    using wf allowed
    by (cases a) (auto simp: tree_insert_wf move_node_wf soft_delete_wf intro!: tree_update_wf)
qed (fact rows_kept_refl, fact rows_kept_trans)

lemma tree_new_wf: "tree_wf tree_new"
  by (simp add: tree_wf_def tree_new_def nodes_ok_def values_ok_def parents_ok_def depth_ok_def
      index_keys_ok_def siblings_ok_def tree_verts_def tree_get_map_of children_def)

section \<open>A small tree\<close>

text \<open>Two folders, a connection, a credential attached to it, and a group, for the witnesses.\<close>

definition sample_folder :: "128 word \<Rightarrow> node" where
  "sample_folder i = node_with_id (NodeId i) kind_folder (lit ''Servers'') 0"

definition sample_connection :: "128 word \<Rightarrow> node" where
  "sample_connection i = node_with_id (NodeId i)
     (case connection_new (lit ''ssh'') (lit ''db.example'') of
        Inr c \<Rightarrow> Connection (c\<lparr>c_credential := Explicit (credential_ref_live (NodeId 4))\<rparr>)
      | Inl e \<Rightarrow> Separator)
     (lit ''db'') 0"

definition sample_credential :: "128 word \<Rightarrow> 128 word \<Rightarrow> node" where
  "sample_credential i owner = node_with_id (NodeId i)
     (Credential (credential_attached (NodeId owner) (lit ''root'') (Password [1]))) (lit ''root'') 0"

definition sample_group :: "128 word \<Rightarrow> 128 word \<Rightarrow> node" where
  "sample_group i member = node_with_id (NodeId i)
     (Group \<lparr>g_members = [Live (NodeId member)], g_layout = Tabs, g_broadcast = False\<rparr>) (lit ''all'') 0"

definition sample_nodes :: "node list" where
  "sample_nodes =
     [sample_folder 1, sample_folder 2, node_under (NodeId 1) 0 (sample_connection 3),
      node_under (NodeId 1) 0 (sample_credential 4 3), sample_group 5 3]"

definition sample_ops :: "tree_op list" where
  "sample_ops =
     map OpInsert sample_nodes
     @ [OpUpdate ((node_under (NodeId 1) 5 (sample_connection 3))\<lparr>n_name := lit ''db2''\<rparr>),
        OpMove (NodeId 1) (Some (NodeId 2)) 7, OpMove (NodeId 2) (Some (NodeId 3)) 1,
        OpDelete (NodeId 1) 9]"

definition sample_tree :: tree where
  "sample_tree = run_machine run_op (map OpInsert sample_nodes) tree_new"

lemma sample_tree_wf: "tree_wf sample_tree"
  unfolding sample_tree_def
  by (rule tree_machine.run_inv [OF tree_new_wf]) (simp add: sample_nodes_def)

lemma sample_verts: "NodeId 1 \<in> tree_verts sample_tree" "NodeId 3 \<in> tree_verts sample_tree"
  unfolding tree_contains_iff [symmetric] by code_simp+

section \<open>Properties\<close>

text \<open>
  C1. Whatever sequence of inserts, edits, moves and deletions is applied to a well-formed
  tree, whichever of them fail, the tree stays well-formed: keys match ids, every node is
  valid, parents exist and are folders, every path to the root has at most
  \<open>MAX_TREE_DEPTH\<close> nodes (so there is no cycle), and each child list holds exactly the
  nodes with that parent, once, in display order. The edits are those that do not turn a
  folder into another kind.
\<close>

theorem tree_ops_keep_wf:
  assumes "tree_wf t" and "run_allowed run_op op_allowed ops t"
  shows "tree_wf (run_machine run_op ops t)"
  using assms by (rule tree_machine.run_inv)

theorem tree_ops_keep_wf_witness: "tree_wf (run_machine run_op sample_ops tree_new)"
  by (rule tree_ops_keep_wf [OF tree_new_wf]) code_simp





section \<open>Loading and storing\<close>

text \<open>
  C8. A list of stored nodes that \<open>from_nodes\<close> accepts makes a well-formed tree holding
  exactly those nodes.
\<close>

theorem from_nodes_establishes_wf:
  assumes "from_nodes ns = Inr t"
  shows "tree_wf t \<and> into_nodes t = ns"
  using from_nodes_wf [OF assms] from_nodes_Inr(1) [OF assms] by (simp add: into_nodes_def comp_def)

theorem from_nodes_establishes_wf_witness:
  "\<exists>t. from_nodes sample_nodes = Inr t \<and> tree_wf t \<and> into_nodes t = sample_nodes"
proof -
  have "is_ok (from_nodes sample_nodes)" by code_simp
  then obtain t where "from_nodes sample_nodes = Inr t" by (auto simp: is_ok_iff)
  with from_nodes_establishes_wf [OF this] show ?thesis by blast
qed

text \<open>
  C7. Storing a well-formed tree as its list of nodes and loading it again succeeds and gives
  back the same nodes with the same display order under every parent.
\<close>

theorem store_load_roundtrip:
  assumes "tree_wf t"
  shows "\<exists>t'. from_nodes (into_nodes t) = Inr t' \<and> t_nodes t' = t_nodes t
    \<and> (\<forall>p. children t' p = children t p)"
  using assms by (rule from_into_nodes)

theorem store_load_roundtrip_witness:
  "\<exists>t'. from_nodes (into_nodes sample_tree) = Inr t' \<and> t_nodes t' = t_nodes sample_tree
    \<and> (\<forall>p. children t' p = children sample_tree p)"
  by (rule store_load_roundtrip [OF sample_tree_wf])


end
