(* ===== verification/Tree_Props.thy ===== *)
theory Tree_Props
  imports Tree_Ops
begin

text \<open>
  What each query and each edit of the tree returns and changes, stated with the tree's own
  operations.
\<close>

section \<open>Queries\<close>

lemma below_iff_path:
  assumes j: "j \<in> tree_verts t" and xs: "chain (tree_up t) (Some j) (j # xs)"
  shows "j \<in> tree_forest.below t i \<longleftrightarrow> i \<in> set xs"
proof
  assume "i \<in> set xs"
  then obtain us vs where "xs = us @ i # vs" by (auto simp: in_set_conv_decomp)
  with xs have "chain (tree_up t) (Some j) ((j # us) @ i # vs)" by simp
  with j show "j \<in> tree_forest.below t i" unfolding tree_forest.below_def by blast
next
  assume "j \<in> tree_forest.below t i"
  then obtain us vs where c: "chain (tree_up t) (Some j) (us @ i # vs)" "us \<noteq> []"
    by (auto simp: tree_forest.below_def)
  have "us @ i # vs = j # xs" by (rule chain_unique [OF c(1) xs])
  with c(2) show "i \<in> set xs" by (cases us) auto
qed

lemma is_ancestor_of_wf:
  assumes wf: "tree_wf t" and j: "j \<in> tree_verts t"
  shows "is_ancestor_of t i j = Inr (j \<in> tree_forest.below t i)"
proof -
  obtain xs where xs: "chain (tree_up t) (Some j) (j # xs)"
      "ancestors t j = Inr (map (\<lambda>x. the (tree_get t x)) xs)"
    by (rule ancestors_ok [OF assms])
  have "set xs \<subseteq> tree_verts t"
    using tree_forest.chain_in_verts [OF wf xs(1)] j by auto
  then have "map n_id (map (\<lambda>x. the (tree_get t x)) xs) = xs"
    using map_get_ids [OF wf] by (simp add: comp_def)
  then have "list_ex (\<lambda>n. n_id n = i) (map (\<lambda>x. the (tree_get t x)) xs) \<longleftrightarrow> i \<in> set xs"
    by (metis (mono_tags, lifting) Bex_set image_iff list.set_map)
  moreover have "j \<in> tree_forest.below t i \<longleftrightarrow> i \<in> set xs" by (rule below_iff_path [OF j xs(1)])
  ultimately show ?thesis by (simp add: is_ancestor_of_def xs(2))
qed

text \<open>
  C11. On a well-formed tree \<open>ancestors\<close> never reports corruption: it returns the proper
  ancestors in order, nearest first, fewer than \<open>MAX_TREE_DEPTH\<close> of them; \<open>path_to_root\<close>
  and \<open>depth\<close> are that path and its length.
\<close>

theorem ancestors_are_the_path:
  assumes wf: "tree_wf t" and i: "tree_contains t i"
  shows "\<exists>as. ancestors t i = Inr as \<and> chain (tree_up t) (Some i) (i # map n_id as)
    \<and> length as < MAX_TREE_DEPTH \<and> path_to_root t i = Inr (i # map n_id as)
    \<and> depth t i = Inr (length as + 1)"
proof -
  have iv: "i \<in> tree_verts t" using i by (simp add: tree_contains_iff)
  obtain xs where xs: "chain (tree_up t) (Some i) (i # xs)"
      "ancestors t i = Inr (map (\<lambda>x. the (tree_get t x)) xs)" "length xs < MAX_TREE_DEPTH"
    by (rule ancestors_ok [OF wf iv])
  have "set xs \<subseteq> tree_verts t"
    using tree_forest.chain_in_verts [OF wf xs(1)] iv by auto
  then have "map n_id (map (\<lambda>x. the (tree_get t x)) xs) = xs"
    using map_get_ids [OF wf] by (simp add: comp_def)
  with xs path_to_root_wf [OF wf iv xs(1)] depth_wf [OF wf iv xs(1)] show ?thesis
    by (intro exI [of _ "map (\<lambda>x. the (tree_get t x)) xs"]) simp
qed

theorem ancestors_are_the_path_witness:
  "\<exists>as. ancestors sample_tree (NodeId 3) = Inr as
    \<and> chain (tree_up sample_tree) (Some (NodeId 3)) (NodeId 3 # map n_id as)
    \<and> length as < MAX_TREE_DEPTH \<and> path_to_root sample_tree (NodeId 3) = Inr (NodeId 3 # map n_id as)
    \<and> depth sample_tree (NodeId 3) = Inr (length as + 1)"
  by (rule ancestors_are_the_path [OF sample_tree_wf]) code_simp

text \<open>
  C9. \<open>descendants\<close>, an explicit stack with a set of seen ids, returns on a well-formed tree
  the recursive pre-order below the node, without repetition, and it contains exactly the
  nodes that have the node among their ancestors.
\<close>

theorem descendants_are_the_preorder:
  assumes wf: "tree_wf t" and i: "tree_contains t i"
  shows "\<exists>ds. descendants t i = Inr ds \<and> ds = concat (map (preorder t) (children t (Some i)))
    \<and> distinct ds \<and> (\<forall>j. j \<in> set ds \<longleftrightarrow> is_ancestor_of t i j = Inr True)"
proof -
  have iv: "i \<in> tree_verts t" using i by (simp add: tree_contains_iff)
  have "j \<in> tree_forest.below t i \<longleftrightarrow> is_ancestor_of t i j = Inr True" for j
  proof (cases "j \<in> tree_verts t")
    case True
    then show ?thesis by (simp add: is_ancestor_of_wf [OF wf])
  next
    case False
    then have "j \<notin> tree_forest.below t i" "tree_get t j = None"
      by (auto simp: tree_forest.below_def tree_verts_def)
    then show ?thesis by (simp add: is_ancestor_of_def ancestors_def)
  qed
  with descendants_preorder [OF wf iv] set_preorder_below [OF wf iv] show ?thesis
    by (auto simp: preorder_below_def)
qed

theorem descendants_are_the_preorder_witness:
  "\<exists>ds. descendants sample_tree (NodeId 1) = Inr ds
    \<and> ds = concat (map (preorder sample_tree) (children sample_tree (Some (NodeId 1))))
    \<and> distinct ds \<and> (\<forall>j. j \<in> set ds \<longleftrightarrow> is_ancestor_of sample_tree (NodeId 1) j = Inr True)"
  by (rule descendants_are_the_preorder [OF sample_tree_wf]) code_simp

text \<open>
  C10. \<open>subtree_height\<close>, a level-by-level walk, returns the number of non-empty levels: some
  node is that many steps (less one) below, and none is further.
\<close>

theorem subtree_height_exact:
  assumes wf: "tree_wf t" and i: "tree_contains t i"
  shows "\<exists>h. subtree_height t i = Inr h
    \<and> (\<exists>x us vs. tree_contains t x \<and> chain (tree_up t) (Some x) (us @ i # vs) \<and> length us + 1 = h)
    \<and> (\<forall>x us vs. tree_contains t x \<and> chain (tree_up t) (Some x) (us @ i # vs) \<longrightarrow> length us + 1 \<le> h)"
proof -
  have iv: "i \<in> tree_verts t" using i by (simp add: tree_contains_iff)
  obtain h where h: "subtree_height t i = Inr h" "height_is t i h"
    by (rule subtree_height_ok [OF wf iv])
  then obtain k where k: "h = Suc k" "tree_forest.level t i k \<noteq> {}"
    by (cases h) (auto simp: height_is_def)
  then have "\<exists>x us vs. tree_contains t x \<and> chain (tree_up t) (Some x) (us @ i # vs) \<and> length us + 1 = h"
    by (auto simp: tree_forest.level_def tree_contains_iff)
  moreover have "length us + 1 \<le> h"
    if "tree_contains t x" "chain (tree_up t) (Some x) (us @ i # vs)" for x us vs
    using height_bound [OF wf h(2) _ that(2)] that(1) by (simp add: tree_contains_iff)
  ultimately show ?thesis using h(1) by blast
qed

theorem subtree_height_exact_witness:
  "\<exists>h x us vs. subtree_height sample_tree (NodeId 1) = Inr h \<and> tree_contains sample_tree x
     \<and> chain (tree_up sample_tree) (Some x) (us @ NodeId 1 # vs) \<and> length us + 1 = h"
proof -
  have "tree_contains sample_tree (NodeId 1)" by code_simp
  from subtree_height_exact [OF sample_tree_wf this] show ?thesis by blast
qed

section \<open>Insert and update\<close>

text \<open>
  C16. An accepted \<open>insert\<close> adds exactly the given node and nothing else, lists it among its
  parent's children in display order, and leaves every other child list alone.
\<close>

theorem insert_adds_one:
  assumes wf: "tree_wf t" and ok: "tree_insert n t = (Inr patch, t')"
  shows "tree_get t' = (tree_get t)(n_id n \<mapsto> n) \<and> \<not> tree_contains t (n_id n)
    \<and> patch = patch_default\<lparr>p_inserted := [n_id n]\<rparr>
    \<and> set (children t' (n_parent_id n)) = insert (n_id n) (set (children t (n_parent_id n)))
    \<and> sorted (map (sibling_key t') (children t' (n_parent_id n)))
    \<and> (\<forall>q. q \<noteq> n_parent_id n \<longrightarrow> children t' q = children t q)"
proof -
  obtain u where g: "insert_guard n t = Inr u"
    using ok by (cases "insert_guard n t") (auto simp: tree_insert_def)
  then have t': "t' = link (n_parent_id n) (n_id n) (t\<lparr>t_nodes := AList.update (n_id n) n (t_nodes t)\<rparr>)"
      "patch = patch_default\<lparr>p_inserted := [n_id n]\<rparr>"
    using ok by (auto simp: tree_insert_def)
  have "tree_wf t'" using tree_insert_wf [OF wf, of n] ok by simp
  then have "sorted (map (sibling_key t') (children t' (n_parent_id n)))"
    using tree_wfD(6) by (simp add: siblings_ok_def)
  then show ?thesis
    using insert_guard_ok(2) [OF wf g] t'
    by (simp add: tree_contains_iff tree_simps tree_get_map_of AList.update_conv')
qed

theorem insert_adds_one_witness:
  "tree_get (snd (tree_insert (sample_folder 9) sample_tree)) =
     (tree_get sample_tree)(NodeId 9 \<mapsto> sample_folder 9)"
proof -
  have "is_ok (fst (tree_insert (sample_folder 9) sample_tree))" by code_simp
  then obtain patch where
    "tree_insert (sample_folder 9) sample_tree = (Inr patch, snd (tree_insert (sample_folder 9) sample_tree))"
    unfolding is_ok_iff by (metis prod.collapse)
  from insert_adds_one [OF sample_tree_wf this] show ?thesis
    by (simp add: sample_folder_def node_with_id_def)
qed

text \<open>
  C15. An accepted \<open>update\<close> stores the given contents with the next revision of the stored
  node, the stored creation time and a modification time that does not go back, whatever the
  caller put in these fields; no other node changes, and neither does any child set.
\<close>

theorem update_controls_bookkeeping:
  assumes wf: "tree_wf t" and ok: "tree_update n t = (Inr patch, t')"
  shows "\<exists>old new. tree_get t (n_id n) = Some old \<and> tree_get t' = (tree_get t)(n_id n \<mapsto> new)
    \<and> n_revision new = saturating_add (n_revision old) 1 \<and> n_created_at new = n_created_at old
    \<and> n_updated_at new = max (n_updated_at n) (n_updated_at old)
    \<and> new\<lparr>n_revision := n_revision n, n_created_at := n_created_at n, n_updated_at := n_updated_at n\<rparr> = n
    \<and> n_parent_id new = n_parent_id old
    \<and> (\<forall>q. set (children t' q) = set (children t q))"
proof -
  obtain old where g: "update_guard n t = Inr old"
    using ok by (cases "update_guard n t") (auto simp: tree_update_def)
  have t': "t' = update_store old n t"
    using ok g by (auto simp: tree_update_def Let_def split: sum.splits)
  have "set (children t' q) = set (children t q)" for q
    using t' by (simp add: update_store_def Let_def tree_simps)
  moreover have "(update_stored old n)
      \<lparr>n_revision := n_revision n, n_created_at := n_created_at n, n_updated_at := n_updated_at n\<rparr> = n"
    by (simp add: update_stored_def)
  ultimately show ?thesis
    using update_guard_ok [OF g] t'
    by (intro exI [of _ old] exI [of _ "update_stored old n"]) (simp add: tree_get_update_store)
qed

theorem update_controls_bookkeeping_witness:
  "\<exists>new. tree_get (snd (tree_update ((sample_folder 1)\<lparr>n_revision := 40, n_created_at := 77\<rparr>) sample_tree))
       (NodeId 1) = Some new \<and> n_created_at new = 0"
proof -
  let ?n = "(sample_folder 1)\<lparr>n_revision := 40, n_created_at := 77\<rparr>"
  have "is_ok (fst (tree_update ?n sample_tree))" by code_simp
  then obtain patch where
    "tree_update ?n sample_tree = (Inr patch, snd (tree_update ?n sample_tree))"
    unfolding is_ok_iff by (metis prod.collapse)
  from update_controls_bookkeeping [OF sample_tree_wf this] obtain old new where
    u: "tree_get sample_tree (n_id ?n) = Some old" "n_created_at new = n_created_at old"
      "tree_get (snd (tree_update ?n sample_tree)) = (tree_get sample_tree)(n_id ?n \<mapsto> new)"
    by blast
  have "map_option n_created_at (tree_get sample_tree (n_id ?n)) = Some 0" by code_simp
  with u show ?thesis by (simp add: sample_folder_def node_with_id_def)
qed

section \<open>Move\<close>

text \<open>
  A move into the moved node itself or anywhere inside its subtree is refused as a
  cycle, and nothing else is: the cheap test on the new parent's path to the root agrees with
  the subtree.
\<close>

theorem move_cycle_iff:
  assumes wf: "tree_wf t" and i: "tree_contains t i"
  shows "fst (move_node i (Some p) order t) = Inl (Cycle i p)
    \<longleftrightarrow> p = i \<or> is_ancestor_of t i p = Inr True"
proof (cases "p \<in> tree_verts t")
  case False
  then have "tree_get t p = None" "p \<noteq> i" using i by (auto simp: tree_contains_def tree_verts_def)
  then show ?thesis
    using False i by (simp add: move_node_def preview_move_def check_new_parent_def tree_contains_iff
        is_ancestor_of_def ancestors_def)
next
  case True
  then obtain n xs where n: "tree_get t p = Some n" and xs: "chain (tree_up t) (Some p) (p # xs)"
    using tree_forest.rooted [OF wf True] by (auto simp: tree_verts_iff chain_Some_iff)
  have path: "path_to_root t p = Inr (p # xs)" "depth t p = Inr (length (p # xs))"
    using path_to_root_wf [OF wf True xs] depth_wf [OF wf True xs] by simp_all
  have on_path: "i \<in> set xs \<longleftrightarrow> is_ancestor_of t i p = Inr True"
    by (simp add: is_ancestor_of_wf [OF wf True] below_iff_path [OF True xs])
  obtain h where "subtree_height t i = Inr h" "subtree t i = Inr (preorder t i)"
    using subtree_height_ok [OF wf] subtree_preorder [OF wf] i by (metis tree_contains_iff)
  then show ?thesis
    using i True n path on_path
    by (auto simp: move_node_def preview_move_def check_new_parent_def tree_contains_iff tree_verts_iff)
qed

theorem move_cycle_iff_witness:
  "fst (move_node (NodeId 1) (Some (NodeId 3)) 0 sample_tree) = Inl (Cycle (NodeId 1) (NodeId 3))"
proof -
  have "tree_contains sample_tree (NodeId 1)" by code_simp
  moreover have "is_ancestor_of sample_tree (NodeId 1) (NodeId 3) = Inr True" by code_simp
  ultimately show ?thesis using move_cycle_iff [OF sample_tree_wf, of "NodeId 1" "NodeId 3" 0] by blast
qed

text \<open>
  C5. A move is accepted exactly when the node exists, the new parent (if any) is an
  existing folder outside the moved subtree, and the deepest node of the subtree stays within
  \<open>MAX_TREE_DEPTH\<close>.
\<close>

theorem move_accepted_iff:
  assumes wf: "tree_wf t"
  shows "is_ok (fst (move_node i new order t)) \<longleftrightarrow>
    tree_contains t i
    \<and> (case new of None \<Rightarrow> True
       | Some p \<Rightarrow> folder_at t p \<and> p \<noteq> i \<and> is_ancestor_of t i p = Inr False)
    \<and> (\<exists>d h. (case new of None \<Rightarrow> Inr 0 | Some p \<Rightarrow> depth t p) = Inr d
         \<and> subtree_height t i = Inr h \<and> d + h \<le> MAX_TREE_DEPTH)"
proof (cases "i \<in> tree_verts t")
  case False
  then show ?thesis by (simp add: move_node_def preview_move_def tree_contains_iff)
next
  case i: True
  obtain n where n: "tree_get t i = Some n" using i by (auto simp: tree_verts_iff)
  obtain h where h: "subtree_height t i = Inr h" "subtree t i = Inr (preorder t i)"
    using subtree_height_ok [OF wf i] subtree_preorder [OF wf i] by blast
  show ?thesis
  proof (cases new)
    case None
    with h i n show ?thesis
      by (simp add: move_node_def preview_move_def check_new_parent_def tree_contains_iff)
  next
    case (Some p)
    show ?thesis
    proof (cases "p \<in> tree_verts t")
      case False
      with Some i n show ?thesis
        by (auto simp: move_node_def preview_move_def check_new_parent_def tree_contains_iff
            dest: folder_at_verts)
    next
      case p: True
      then obtain m xs where m: "tree_get t p = Some m" and xs: "chain (tree_up t) (Some p) (p # xs)"
        using tree_forest.rooted [OF wf p] by (auto simp: tree_verts_iff chain_Some_iff)
      have path: "path_to_root t p = Inr (p # xs)" "depth t p = Inr (length (p # xs))"
        using path_to_root_wf [OF wf p xs] depth_wf [OF wf p xs] by simp_all
      have "is_ancestor_of t i p = Inr (i \<in> set xs)"
        by (simp add: is_ancestor_of_wf [OF wf p] below_iff_path [OF p xs])
      then show ?thesis
        using Some h i n p m path
        by (auto simp: move_node_def preview_move_def check_new_parent_def tree_contains_iff folder_at_def)
    qed
  qed
qed

theorem move_accepted_iff_witness:
  "is_ok (fst (move_node (NodeId 1) (Some (NodeId 2)) 0 sample_tree))
   \<and> folder_at sample_tree (NodeId 2)"
proof -
  have "is_ok (fst (move_node (NodeId 1) (Some (NodeId 2)) 0 sample_tree))" by code_simp
  with move_accepted_iff [OF sample_tree_wf, of "NodeId 1" "Some (NodeId 2)" 0] show ?thesis by simp
qed

text \<open>
  The preview of a move reports exactly what the move then reports, errors included, on
  any tree.
\<close>

theorem preview_is_the_move: "fst (move_node i new order t) = preview_move t i new"
proof (cases "preview_move t i new")
  case (Inr patch)
  then have "tree_contains t i" by (auto simp: preview_move_def split: if_splits)
  then obtain n where "tree_get t i = Some n" by (auto simp: tree_contains_def)
  with Inr show ?thesis by (simp add: move_node_def Let_def)
qed (simp add: move_node_def)

lemma place_node_again:
  assumes "0 < k"
  shows "n_parent_id ((place_node p order ^^ k) n) = p \<and> n_sort_order ((place_node p order ^^ k) n) = order
    \<and> ((place_node p order ^^ k) n)\<lparr>n_parent_id := n_parent_id n, n_sort_order := n_sort_order n,
         n_revision := n_revision n\<rparr> = n"
  using assms
proof (induction k)
  case (Suc k)
  then show ?case by (cases k) (auto simp: place_node_def)
qed simp

lemma move_node_get:
  assumes wf: "tree_wf t" and ok: "move_node i new order t = (Inr patch, t')"
  shows "p_updated patch = i # attached_credentials t i"
    and "tree_get t' j = map_option (place_node new order ^^ count_list (p_updated patch) j) (tree_get t j)"
proof -
  have pv: "preview_move t i new = Inr patch"
    using ok by (cases "preview_move t i new") (auto simp: move_node_Inl move_node_Inr [OF wf])
  show upd: "p_updated patch = i # attached_credentials t i"
    using preview_move_ok(3) [OF wf pv] by (simp add: patch_default_def)
  have "t' = fold (relocate_attached new order) (attached_credentials t i)
      (relocate (tree_up t i) new order i t)"
    using ok move_node_Inr [OF wf pv] by simp
  then show "tree_get t' j = map_option (place_node new order ^^ count_list (p_updated patch) j) (tree_get t j)"
    by (simp add: relocate_all_get upd tree_simps option.map_comp comp_def funpow_swap1 option.map_ident)
qed


lemma is_ok_fst_obtain:
  assumes "is_ok (fst r)"
  obtains y where "r = (Inr y, snd r)"
  using assms that by (cases r; cases "fst r") auto


section \<open>Soft delete\<close>



lemma doomed_verts:
  assumes wf: "tree_wf t" and i: "i \<in> tree_verts t"
  shows "set (doomed t i) \<subseteq> tree_verts t"
  using set_preorder [OF assms] i set_attached_outside [OF tree_wfD(1) [OF wf]]
  by (auto simp: doomed_def tree_verts_iff tree_forest.below_def)

text \<open>The update a deletion makes to one reference, in terms of the deleted set.\<close>

definition entomb :: "tree \<Rightarrow> node_id set \<Rightarrow> node_ref \<Rightarrow> node_ref" where
  "entomb t D r =
     (case r of
        Live k \<Rightarrow> if k \<in> D then Deleted k (n_name (the (tree_get t k))) else Live k
      | Deleted k nm \<Rightarrow> Deleted k nm)"

lemma bury_entomb:
  assumes "nodes_ok t" and "set ids \<subseteq> tree_verts t"
  shows "bury (deleted_names t ids) r = entomb t (set ids) r"
    and "buries (deleted_names t ids) r \<longleftrightarrow> entomb t (set ids) r \<noteq> r"
  using assms(2)
  by (auto simp: bury_def buries_def entomb_def map_of_deleted_names [OF assms(1)] tree_verts_iff
      split: node_ref.splits option.splits)



section \<open>Deleting twice\<close>

lemma references_mut_fixed:
  assumes "\<forall>r\<in>set (node_references n). f r = r"
  shows "references_mut f n = n"
proof -
  have hop: "hop_map_refs f h = h" if "\<forall>r\<in>set (hop_refs h). f r = r" for h :: gateway_hop
    using that by (cases "h_credential h") (auto simp: hop_refs_def hop_map_refs_def)
  have cred: "credential_map_refs f c = c"
    if "\<forall>r. (case c of Explicit x \<Rightarrow> r = as_node_ref x | _ \<Rightarrow> False) \<longrightarrow> f r = r" for c
    using that by (auto simp: credential_map_refs_def split: inherited.splits)
  have gate: "gateway_map_refs f g = g"
    if "\<forall>r. (case g of Explicit c \<Rightarrow> r \<in> set (concat (map hop_refs (gc_hops c))) | _ \<Rightarrow> False) \<longrightarrow> f r = r"
    for g
  proof (cases g)
    case (Explicit c)
    with that have "map (hop_map_refs f) (gc_hops c) = gc_hops c"
      unfolding map_fixes_iff by (auto intro: hop)
    with Explicit show ?thesis by (simp add: gateway_map_refs_def)
  qed (simp_all add: gateway_map_refs_def)
  have "kind_map_refs f (n_kind n) = n_kind n"
  proof (cases "n_kind n")
    case (Group g)
    with assms show ?thesis by (simp add: kind_map_refs_def node_references_def field_defs map_fixes_iff)
  next
    case (Folder p)
    then have "credential_map_refs f (f_credential p) = f_credential p" "gateway_map_refs f (f_gateway p) = f_gateway p"
      using assms by (auto intro!: cred gate simp: node_references_def field_defs split: inherited.splits)
    with Folder show ?thesis by (simp add: kind_map_refs_def)
  next
    case (Connection p)
    then have "credential_map_refs f (c_credential p) = c_credential p" "gateway_map_refs f (c_gateway p) = c_gateway p"
      using assms by (auto intro!: cred gate simp: node_references_def field_defs split: inherited.splits)
    with Connection show ?thesis by (simp add: kind_map_refs_def)
  qed (simp_all add: kind_map_refs_def)
  then show ?thesis by (simp add: references_mut_def)
qed

lemma preorder_same_index:
  assumes "t_children t' = t_children t"
  shows "preorder t' = preorder t"
proof
  have kids: "children t' = children t" using assms by (simp add: children_def fun_eq_iff)
  have "preorder_upto k t' x = preorder_upto k t x" for k x
    by (induction k arbitrary: x) (simp_all add: kids cong: map_cong)
  then show "preorder t' x = preorder t x" for x by (simp add: preorder_def)
qed

lemma kind_credential_kept [simp]:
  "n_kind (untarget now d n) = Credential p \<longleftrightarrow> n_kind n = Credential p"
  by (simp add: untarget_def references_mut_def kind_map_refs_def split: node_kind.split)

lemma set_doomed_after:
  assumes wf: "tree_wf t" and i: "i \<in> tree_verts t" and sd: "soft_delete i now t = (r, t')"
  shows "set (doomed t' i) = set (doomed t i)"
proof -
  note eff = soft_delete_effect [OF wf i sd]
  have wf': "tree_wf t'" using soft_delete_wf [OF wf, of i now] sd by simp
  have kinds: "(\<exists>n. tree_get t' c = Some n \<and> n_kind n = Credential p)
      \<longleftrightarrow> (\<exists>n. tree_get t c = Some n \<and> n_kind n = Credential p)" for c p
    unfolding eff(3) by (cases "tree_get t c") auto
  have outside: "c \<in> set (attached_outside s S) \<longleftrightarrow> c \<notin> set S \<and>
      (\<exists>p owner. (\<exists>n. tree_get s c = Some n \<and> n_kind n = Credential p)
         \<and> cr_attached_to p = Some owner \<and> owner \<in> set S)" if "tree_wf s" for s c S
    unfolding set_attached_outside [OF tree_wfD(1) [OF that]] by blast
  have "set (attached_outside t' S) = set (attached_outside t S)" for S
    by (rule set_eqI) (simp only: outside [OF wf] outside [OF wf'] kinds)
  then show ?thesis by (simp add: doomed_def preorder_same_index [OF eff(1)])
qed

lemma names_after:
  assumes wf: "tree_wf t" and i: "i \<in> tree_verts t" and sd: "soft_delete i now t = (r, t')"
  shows "map_of (deleted_names t' (doomed t' i)) k \<noteq> None \<longleftrightarrow> map_of (deleted_names t (doomed t i)) k \<noteq> None"
proof -
  have wf': "tree_wf t'" using soft_delete_wf [OF wf, of i now] sd by simp
  show ?thesis
    using soft_delete_effect(3) [OF wf i sd, of k]
    by (auto simp: map_of_deleted_names [OF tree_wfD(1) [OF wf]] map_of_deleted_names [OF tree_wfD(1) [OF wf']]
        set_doomed_after [OF assms])
qed

text \<open>
  Deleting a node that is deleted already changes nothing and reports nothing: no
  revision is bumped and no timestamp moves.
\<close>

theorem soft_delete_idempotent:
  assumes wf: "tree_wf t" and ok: "soft_delete i now t = (Inr patch, t')"
  shows "soft_delete i later t' = (Inr patch_default, t')"
proof -
  have i: "i \<in> tree_verts t" using ok soft_delete_missing by fastforce
  note eff = soft_delete_effect [OF wf i ok] and D = set_doomed_after [OF wf i ok]
  have wf': "tree_wf t'" using soft_delete_wf [OF wf, of i now] ok by simp
  have i': "i \<in> tree_verts t'" using eff(3) [of i] i by (auto simp: tree_verts_iff)
  obtain r t'' where again: "soft_delete i later t' = (r, t'')" by fastforce
  note eff' = soft_delete_effect [OF wf' i' again]
  let ?d' = "deleted_names t' (doomed t' i)" and ?d = "deleted_names t (doomed t i)"
  have still: "\<not> buries ?d' r \<and> bury ?d' r = r"
    if h: "tree_get t' j = Some n'" "j \<notin> set (doomed t i)" "r \<in> set (node_references n')" for j n' r
  proof -
    obtain n where "n' = untarget now ?d n" using h(1,2) eff(3) [of j] by auto
    with h(3) obtain r0 where r: "r = bury ?d r0" by auto
    show ?thesis
    proof (cases "map_of ?d (ref_id r0)")
      case None
      with r have "map_of ?d' (ref_id r) = None" using names_after [OF wf i ok, of "ref_id r0"] by simp
      then show ?thesis by (simp add: buries_def bury_other)
    next
      case (Some nm)
      with r bury_dead [of ?d r0] have "ref_is_deleted r" by simp
      then show ?thesis by (cases r) (auto simp: buries_def bury_def split: option.split)
    qed
  qed
  have none: "\<not> list_ex (buries ?d') (node_references n')"
    if "tree_get t' j = Some n'" "j \<notin> set (doomed t i)" for j n'
    using still [OF that] by (auto simp: list_ex_iff)
  have marked: "n_deleted_at n' \<noteq> None" if h: "tree_get t' j = Some n'" "j \<in> set (doomed t i)" for j n'
  proof -
    obtain z where z: "n' = mark_deleted now z" using h eff(3) [of j] by auto
    show ?thesis unfolding z by (rule mark_deleted_simps(6))
  qed
  have "tree_get t'' j = tree_get t' j" for j
  proof (cases "tree_get t' j")
    case (Some n')
    show ?thesis
    proof (cases "j \<in> set (doomed t i)")
      case True
      with marked [OF Some True] Some show ?thesis by (auto simp: eff'(3) D mark_deleted_def)
    next
      case False
      then have "untarget later ?d' n' = n'"
        using none [OF Some False] still [OF Some False]
        by (simp add: untarget_def references_mut_fixed)
      with False Some show ?thesis by (simp add: eff'(3) D)
    qed
  qed (simp add: eff'(3))
  then have "map_of (t_nodes t'') = map_of (t_nodes t')" by (simp add: tree_get_def fun_eq_iff)
  then have "t_nodes t'' = t_nodes t'"
    using eff'(2) tree_wfD(1) [OF wf'] by (intro hm_ext) (simp_all add: nodes_ok_def)
  with eff'(1) have "t'' = t'" by simp
  moreover have "r = Inr patch_default"
  proof -
    have "filter (\<lambda>j. \<exists>n. tree_get t' j = Some n \<and> n_deleted_at n = None) (doomed t' i) = []"
      by (rule filter_False) (auto simp: D dest: marked)
    moreover have "filter (\<lambda>j. \<exists>n. tree_get t' j = Some n \<and> j \<notin> set (doomed t' i)
        \<and> list_ex (buries ?d') (node_references n)) (map fst (t_nodes t')) = []"
      by (rule filter_False) (auto simp: D dest: none)
    ultimately show ?thesis unfolding eff'(4) by (simp add: patch_default_def del: filter_map)
  qed
  ultimately show ?thesis using again by simp
qed

theorem soft_delete_idempotent_witness:
  "soft_delete (NodeId 1) 20 (snd (soft_delete (NodeId 1) 9 sample_tree))
     = (Inr patch_default, snd (soft_delete (NodeId 1) 9 sample_tree))"
proof -
  have "is_ok (fst (soft_delete (NodeId 1) 9 sample_tree))" by code_simp
  then obtain patch where
    "soft_delete (NodeId 1) 9 sample_tree = (Inr patch, snd (soft_delete (NodeId 1) 9 sample_tree))"
    by (rule is_ok_fst_obtain)
  then show ?thesis by (rule soft_delete_idempotent [OF sample_tree_wf])
qed

end
