(* ===== verification/Resolve_Props.thy ===== *)
theory Resolve_Props
  imports Tree_Resolve Tree_Props
begin

text \<open>
  What resolution returns. The nearest node that settles a field decides its value and is
  named as its source; protocol settings merge key by key with the same precedence; and a
  detached copy of a node resolves to the same values with nothing above it. The last part
  is stated once, as the locale \<open>pinned_field\<close>, and interpreted for the nine fields.
\<close>

section \<open>Protocol settings, key by key\<close>

text \<open>
  The two \<open>BTreeMap\<close>s of a node, as the type guarantees them: sorted by key.
\<close>

definition settings_sorted :: "node \<Rightarrow> bool" where
  "settings_sorted n \<longleftrightarrow> (case settings_field n of None \<Rightarrow> True | Some s \<Rightarrow> btree_ok s)"

definition setting_at :: "rstring \<Rightarrow> node \<Rightarrow> rstring option" where
  "setting_at key n = Option.bind (settings_field n) (\<lambda>s. settings_get key s)"

lemma btree_ok_Nil [simp]: "btree_ok []"
  by (simp add: btree_ok_def)

lemma btree_ok_fold_insert:
  "btree_ok m \<Longrightarrow> btree_ok (fold (\<lambda>(k, v). btree_insert k (f v)) s m)"
  by (induction s arbitrary: m) auto

lemma map_of_fold_insert:
  assumes "distinct (map fst s)"
  shows "map_of (fold (\<lambda>(k, v). btree_insert k (f v)) s m) key =
    (case map_of s key of None \<Rightarrow> map_of m key | Some v \<Rightarrow> Some (f v))"
  using assms
proof (induction s arbitrary: m)
  case Nil
  then show ?case by simp
next
  case (Cons e s)
  obtain k v where [simp]: "e = (k, v)" by (cases e)
  from Cons.prems have "key = k \<Longrightarrow> map_of s key = None"
    by (auto simp: map_of_eq_None_iff)
  with Cons show ?case by (auto split: option.split)
qed

lemma find_map_append: "find_map f (xs @ ys) = (case find_map f xs of None \<Rightarrow> find_map f ys | Some y \<Rightarrow> Some y)"
  by (induction xs) (auto split: option.split)

lemma merge_from_ancestor_get:
  assumes "settings_sorted a"
  shows "map_of (merge_from_ancestor a m) key =
    (case setting_at key a of
       None \<Rightarrow> map_of m key | Some v \<Rightarrow> Some (resolved_from_ancestor (n_id a) v))"
  using assms
  by (auto simp: merge_from_ancestor_def settings_sorted_def setting_at_def settings_get_def
      map_of_fold_insert btree_ok_distinct split: option.splits)

lemma merge_ancestors_get:
  assumes "\<forall>a\<in>set as. settings_sorted a"
  shows "map_of (fold merge_from_ancestor (rev as) []) key =
    find_map (\<lambda>a. map_option (resolved_from_ancestor (n_id a)) (setting_at key a)) as"
  using assms by (induction as) (auto simp: merge_from_ancestor_get split: option.split)

lemma btree_ok_merge_from_ancestor: "btree_ok m \<Longrightarrow> btree_ok (merge_from_ancestor a m)"
  by (simp add: merge_from_ancestor_def btree_ok_fold_insert split: option.split)

lemma btree_ok_merge_settings: "btree_ok (merge_settings n as)"
proof -
  have "btree_ok (fold merge_from_ancestor xs m)" if "btree_ok m" for xs m
    using that by (induction xs arbitrary: m) (auto intro: btree_ok_merge_from_ancestor)
  from this [of "[]"] show ?thesis
    by (simp add: merge_settings_def Let_def btree_ok_fold_insert split: option.split)
qed

lemma merge_settings_get:
  assumes "settings_sorted n" and "\<forall>a\<in>set as. settings_sorted a"
  shows "map_of (merge_settings n as) key =
    (case setting_at key n of
       Some v \<Rightarrow> Some (resolved_own (n_id n) v)
     | None \<Rightarrow> find_map (\<lambda>a. map_option (resolved_from_ancestor (n_id a)) (setting_at key a)) as)"
  using assms merge_ancestors_get [OF assms(2), of key]
  by (auto simp: merge_settings_def Let_def setting_at_def settings_get_def settings_sorted_def
      map_of_fold_insert btree_ok_distinct split: option.splits)

section \<open>Copying inherited settings\<close>

lemma add_missing_get:
  assumes "\<forall>e\<in>set inherited. validate_setting_key (fst e) = Inr ()"
  shows "\<exists>s'. add_missing inherited s = Inr s' \<and> (btree_ok s \<longrightarrow> btree_ok s')
    \<and> (\<forall>key. map_of s' key = (case map_of s key of None \<Rightarrow> map_of inherited key | Some v \<Rightarrow> Some v))"
  using assms
proof (induction inherited arbitrary: s)
  case Nil
  then show ?case by (auto split: option.split)
next
  case (Cons e inherited)
  obtain k v where [simp]: "e = (k, v)" by (cases e)
  show ?case
  proof (cases "map_of s k")
    case None
    obtain s' where "add_missing inherited (btree_insert k v s) = Inr s'"
        "btree_ok (btree_insert k v s) \<longrightarrow> btree_ok s'"
        "\<forall>key. map_of s' key = (case map_of (btree_insert k v s) key of
           None \<Rightarrow> map_of inherited key | Some v \<Rightarrow> Some v)"
      using Cons.IH [of "btree_insert k v s"] Cons.prems by auto
    with None Cons.prems show ?thesis
      by (auto simp: settings_contains_key_def settings_insert_def split: option.split)
  next
    case (Some w)
    obtain s' where "add_missing inherited s = Inr s'" "btree_ok s \<longrightarrow> btree_ok s'"
        "\<forall>key. map_of s' key = (case map_of s key of None \<Rightarrow> map_of inherited key | Some v \<Rightarrow> Some v)"
      using Cons.IH [of s] Cons.prems by auto
    with Some show ?thesis by (auto simp: settings_contains_key_def split: option.split)
  qed
qed

lemma valid_settings_keys:
  assumes "valid_node a" and "settings_field a = Some s"
  shows "\<forall>e\<in>set s. validate_setting_key (fst e) = Inr ()"
proof -
  have "validate_settings s = Inr ()"
    using assms by (auto simp: validate_node_def validate_kind_def validate_folder_def
        validate_connection_def settings_field_def result_simps split: node_kind.splits)
  then show ?thesis by (auto simp: validate_settings_def try_each_Inr_iff)
qed

lemma merge_ancestor_settings_get:
  assumes "\<forall>a\<in>set as. valid_node a"
  shows "\<exists>s'. merge_ancestor_settings as s = Inr s' \<and> (btree_ok s \<longrightarrow> btree_ok s')
    \<and> (\<forall>key. map_of s' key = (case map_of s key of None \<Rightarrow> find_map (setting_at key) as | Some v \<Rightarrow> Some v))"
  using assms
proof (induction as arbitrary: s)
  case Nil
  then show ?case by (auto split: option.split)
next
  case (Cons a as)
  show ?case
  proof (cases "settings_field a")
    case None
    then have skip: "find_map (setting_at key) (a # as) = find_map (setting_at key) as"
        "merge_ancestor_settings (a # as) s = merge_ancestor_settings as s" for key
      by (simp_all add: setting_at_def)
    show ?thesis unfolding skip using Cons by simp
  next
    case (Some inherited)
    obtain s1 where s1: "add_missing inherited s = Inr s1" "btree_ok s \<longrightarrow> btree_ok s1"
        "\<forall>key. map_of s1 key = (case map_of s key of None \<Rightarrow> map_of inherited key | Some v \<Rightarrow> Some v)"
      using add_missing_get valid_settings_keys [OF _ Some] Cons.prems by force
    obtain s' where "merge_ancestor_settings as s1 = Inr s'" "btree_ok s1 \<longrightarrow> btree_ok s'"
        "\<forall>key. map_of s' key = (case map_of s1 key of None \<Rightarrow> find_map (setting_at key) as | Some v \<Rightarrow> Some v)"
      using Cons.IH [of s1] Cons.prems by auto
    with s1 Some show ?thesis
      by (auto simp: setting_at_def settings_get_def split: option.split)
  qed
qed

section \<open>Pinning a field\<close>

text \<open>
  An inheritable field whose value in the detached copy is the pinned value of the original.
\<close>

locale pinned_field =
  fixes field :: "node \<Rightarrow> 'a inherited option"
  assumes pinned: "detach_kind n as (n_kind n) = Inr k \<Longrightarrow>
      field (n\<lparr>n_parent_id := p, n_kind := k, n_icon := ic, n_colour := co\<rparr>)
        = map_option (pin n as field) (field n)"
begin

lemma resolve_pin:
  "r_value (case map_option (pin n as field) (field n) of
       Some (Explicit v) \<Rightarrow> resolved_own i (Some v)
     | Some Default \<Rightarrow> resolved_default_at i None
     | Some Inherit \<Rightarrow> resolve_ancestors [] field
     | None \<Rightarrow> resolve_ancestors [] field)
   = (if field n = None then None else r_value (resolve n as field))"
proof (cases "field n")
  case None
  then show ?thesis by simp
next
  case (Some x)
  show ?thesis
  proof (cases x)
    case Inherit
    with Some show ?thesis
      by (auto simp: resolve_def resolve_ancestors_find pin_def Let_def
          split: option.splits inherited.splits)
  qed (use Some in \<open>simp_all add: resolve_def pin_def\<close>)
qed

lemma detached_value:
  assumes "detached t i = Inr d" and "tree_get t i = Some n" and "ancestors t i = Inr as"
    and "field n \<noteq> None"
  shows "r_value (resolve d [] field) = r_value (resolve n as field)"
proof -
  obtain k where k: "detach_kind n as (n_kind n) = Inr k"
    and d: "d = n\<lparr>n_parent_id := None, n_kind := k,
        n_icon := (case n_icon n of None \<Rightarrow> find_map n_icon as | Some x \<Rightarrow> Some x),
        n_colour := (case n_colour n of None \<Rightarrow> find_map n_colour as | Some x \<Rightarrow> Some x)\<rparr>"
    using assms(1-3) by (auto simp: detached_def and_then_Inr_iff)
  have fd: "field d = map_option (pin n as field) (field n)" unfolding d by (rule pinned [OF k])
  show ?thesis
    using resolve_pin [where n = n and as = as and i = "n_id d"] assms(4)
    unfolding resolve_def [of d "[]" field] fd by simp
qed

end

lemma detach_kind_cases:
  assumes "detach_kind n as k = Inr k'"
  shows "(\<exists>p s. k = Folder p \<and> k' = Folder ((pin_folder n as p)\<lparr>f_settings := s\<rparr>))
    \<or> (\<exists>p s. k = Connection p \<and> k' = Connection ((pin_connection n as p)\<lparr>c_settings := s\<rparr>))
    \<or> k' = k \<and> as_folder k = None \<and> as_connection k = None"
  using assms by (auto simp: detach_kind_def and_then_Inr_iff split: node_kind.splits)

interpretation pin_port: pinned_field port_field
  by unfold_locales (drule detach_kind_cases, auto simp: port_field_def pin_folder_def pin_connection_def split: node_kind.splits)

interpretation pin_credential: pinned_field credential_field
  by unfold_locales (drule detach_kind_cases, auto simp: credential_field_def pin_folder_def pin_connection_def split: node_kind.splits)

interpretation pin_gateway: pinned_field gateway_field
  by unfold_locales (drule detach_kind_cases, auto simp: gateway_field_def pin_folder_def pin_connection_def split: node_kind.splits)

interpretation pin_connect_timeout: pinned_field connect_timeout_field
  by unfold_locales (drule detach_kind_cases, auto simp: connect_timeout_field_def pin_folder_def pin_connection_def split: node_kind.splits)

interpretation pin_keepalive: pinned_field keepalive_field
  by unfold_locales (drule detach_kind_cases, auto simp: keepalive_field_def pin_folder_def pin_connection_def split: node_kind.splits)

interpretation pin_on_connect: pinned_field on_connect_field
  by unfold_locales (drule detach_kind_cases, auto simp: on_connect_field_def pin_folder_def pin_connection_def split: node_kind.splits)

interpretation pin_on_disconnect: pinned_field on_disconnect_field
  by unfold_locales (drule detach_kind_cases, auto simp: on_disconnect_field_def pin_folder_def pin_connection_def split: node_kind.splits)

interpretation pin_recording: pinned_field recording_field
  by unfold_locales (drule detach_kind_cases, auto simp: recording_field_def pin_folder_def pin_connection_def split: node_kind.splits)

interpretation pin_auto_reconnect: pinned_field auto_reconnect_field
  by unfold_locales (drule detach_kind_cases, auto simp: auto_reconnect_field_def pin_folder_def pin_connection_def split: node_kind.splits)

lemmas detached_values =
  pin_port.detached_value pin_credential.detached_value pin_gateway.detached_value
  pin_connect_timeout.detached_value pin_keepalive.detached_value pin_on_connect.detached_value
  pin_on_disconnect.detached_value pin_recording.detached_value pin_auto_reconnect.detached_value

section \<open>Detached copies\<close>

text \<open>What a connection resolves to, without where each value came from.\<close>

definition effective_values :: "effective_connection \<Rightarrow>
    node_id \<times> rstring \<times> protocol_id \<times> rstring \<times> u16 option \<times> credential_ref option \<times> rstring option
    \<times> bool \<times> gateway_chain \<times> u32 option \<times> u32 option \<times> (rstring \<times> rstring) list \<times> rstring list
    \<times> rstring list \<times> recording_policy \<times> reconnect_policy \<times> rstring option \<times> rstring option" where
  "effective_values e =
     (e_node e, e_name e, e_protocol e, e_host e, r_value (e_port e), r_value (e_credential e),
      r_value (e_username e), e_credential_attached e, r_value (e_gateway e),
      r_value (e_connect_timeout_ms e), r_value (e_keepalive_secs e),
      map (\<lambda>(k, r). (k, r_value r)) (e_settings e), r_value (e_on_connect e),
      r_value (e_on_disconnect e), r_value (e_recording e), r_value (e_auto_reconnect e),
      r_value (e_icon e), r_value (e_colour e))"

lemma map_of_map_values: "map_of (map (\<lambda>(k, r). (k, g r)) m) key = map_option g (map_of m key)"
  by (induction m) auto

lemma find_map_values: "map_option r_value (find_map (\<lambda>a. map_option (resolved_from_ancestor (n_id a)) (f a)) as)
    = find_map f as"
  by (induction as) (auto split: option.split)

lemma settings_values:
  assumes "settings_sorted n" and "\<forall>a\<in>set as. settings_sorted a"
  shows "map_of (map (\<lambda>(k, r). (k, r_value r)) (merge_settings n as)) key =
    (case setting_at key n of Some v \<Rightarrow> Some v | None \<Rightarrow> find_map (setting_at key) as)"
  by (simp add: map_of_map_values merge_settings_get [OF assms] find_map_values split: option.split)

lemma btree_ok_map_values: "btree_ok m \<Longrightarrow> btree_ok (map (\<lambda>(k, r). (k, g r)) m)"
  by (simp add: btree_ok_def comp_def case_prod_unfold)

lemma resolve_optional_value:
  "r_value (resolve_optional_field n as field) =
     (case field n of Some v \<Rightarrow> Some v | None \<Rightarrow> find_map field as)"
proof -
  have "r_value (resolve_optional_ancestors as field) = find_map field as"
    by (induction as) (auto split: option.split)
  then show ?thesis by (simp add: resolve_optional_field_def split: option.split)
qed

lemma detached_connection:
  assumes d: "detached t i = Inr d" and n: "tree_get t i = Some n" "n_kind n = Connection c"
    and as: "ancestors t i = Inr as"
  shows "\<exists>s. merge_ancestor_settings as (c_settings c) = Inr s
    \<and> n_kind d = Connection ((pin_connection n as c)\<lparr>c_settings := s\<rparr>)
    \<and> n_parent_id d = None \<and> n_name d = n_name n
    \<and> n_icon d = (case n_icon n of None \<Rightarrow> find_map n_icon as | Some x \<Rightarrow> Some x)
    \<and> n_colour d = (case n_colour n of None \<Rightarrow> find_map n_colour as | Some x \<Rightarrow> Some x)"
  using assms by (auto simp: detached_def detach_kind_def and_then_Inr_iff)

lemma detached_settings:
  assumes s: "merge_ancestor_settings as (c_settings c) = Inr s"
    and n: "n_kind n = Connection c" "settings_sorted n"
    and d: "n_kind d = Connection (c'\<lparr>c_settings := s\<rparr>)"
    and as: "\<forall>a\<in>set as. valid_node a \<and> settings_sorted a"
  shows "map (\<lambda>(k, r). (k, r_value r)) (merge_settings d [])
    = map (\<lambda>(k, r). (k, r_value r)) (merge_settings n as)"
proof (rule btree_ext)
  show "btree_ok (map (\<lambda>(k, r). (k, r_value r)) (merge_settings d []))"
    and "btree_ok (map (\<lambda>(k, r). (k, r_value r)) (merge_settings n as))"
    by (intro btree_ok_map_values btree_ok_merge_settings)+
  obtain s' where s': "merge_ancestor_settings as (c_settings c) = Inr s'"
    and ok: "btree_ok (c_settings c) \<longrightarrow> btree_ok s'"
    and get: "\<And>key. map_of s' key = (case map_of (c_settings c) key of
        None \<Rightarrow> find_map (setting_at key) as | Some v \<Rightarrow> Some v)"
    using merge_ancestor_settings_get [of as "c_settings c"] as by blast
  have [simp]: "s' = s" using s s' by simp
  have "settings_sorted d" using n ok d by (simp add: settings_sorted_def settings_field_def)
  moreover have "setting_at key d = map_of s key" "setting_at key n = map_of (c_settings c) key" for key
    using d n(1) by (simp_all add: setting_at_def settings_field_def settings_get_def)
  ultimately show "map_of (map (\<lambda>(k, r). (k, r_value r)) (merge_settings d []))
      = map_of (map (\<lambda>(k, r). (k, r_value r)) (merge_settings n as))"
    using get as n(2) by (auto simp: settings_values fun_eq_iff split: option.split)
qed

lemma icon_colour: "icon_field = n_icon" "colour_field = n_colour"
  by (simp_all add: fun_eq_iff icon_field_def colour_field_def)

lemma flatten_detached:
  assumes d: "detached t i = Inr d" and n: "tree_get t i = Some n" "n_kind n = Connection c"
    and as: "ancestors t i = Inr as" "\<forall>a\<in>set as. valid_node a \<and> settings_sorted a"
    and sorted: "settings_sorted n" and props: "credential_props t2 = credential_props t"
    and c': "n_kind d = Connection c'"
  shows "effective_values (flatten t2 i d c' []) = effective_values (flatten t i n c as)"
proof -
  note vals = detached_values [OF d n(1) as(1)]
  obtain s where s: "merge_ancestor_settings as (c_settings c) = Inr s"
    and k: "n_kind d = Connection ((pin_connection n as c)\<lparr>c_settings := s\<rparr>)"
    and rest: "n_name d = n_name n"
      "n_icon d = (case n_icon n of None \<Rightarrow> find_map n_icon as | Some x \<Rightarrow> Some x)"
      "n_colour d = (case n_colour n of None \<Rightarrow> find_map n_colour as | Some x \<Rightarrow> Some x)"
    using detached_connection [OF d n as(1)] by blast
  have set: "map (\<lambda>(k, r). (k, r_value r)) (merge_settings d [])
      = map (\<lambda>(k, r). (k, r_value r)) (merge_settings n as)"
    by (rule detached_settings [OF s n(2) sorted k as(2)])
  have c'_eq: "c' = (pin_connection n as c)\<lparr>c_settings := s\<rparr>" using c' k by simp
  have fields: "port_field n \<noteq> None" "credential_field n \<noteq> None" "gateway_field n \<noteq> None"
      "connect_timeout_field n \<noteq> None" "keepalive_field n \<noteq> None" "on_connect_field n \<noteq> None"
      "on_disconnect_field n \<noteq> None" "recording_field n \<noteq> None" "auto_reconnect_field n \<noteq> None"
    using n(2) by (simp_all add: field_defs)
  have eqs: "c_protocol c' = c_protocol c" "c_host c' = c_host c"
    by (simp_all add: c'_eq pin_connection_def)
  have opt: "r_value (resolve_optional_field d [] icon_field) = r_value (resolve_optional_field n as icon_field)"
      "r_value (resolve_optional_field d [] colour_field) = r_value (resolve_optional_field n as colour_field)"
    by (simp_all add: resolve_optional_value icon_colour rest split: option.split)
  show ?thesis
    using vals(1) [OF fields(1)] vals(2) [OF fields(2)] vals(3) [OF fields(3)] vals(4) [OF fields(4)]
      vals(5) [OF fields(5)] vals(6) [OF fields(6)] vals(7) [OF fields(7)] vals(8) [OF fields(8)]
      vals(9) [OF fields(9)] set opt rest(1) eqs props
    by (simp add: effective_values_def flatten_def Let_def)
qed

section \<open>Properties\<close>

lemma ancestors_nodes:
  assumes wf: "tree_wf t" and i: "i \<in> tree_verts t"
  obtains as where "ancestors t i = Inr as" and "set as \<subseteq> set (tree_nodes t)"
    and "\<forall>a\<in>set as. n_id a \<noteq> i \<and> valid_node a"
proof -
  obtain xs where xs: "chain (tree_up t) (Some i) (i # xs)"
      "ancestors t i = Inr (map (\<lambda>x. the (tree_get t x)) xs)"
    by (rule ancestors_ok [OF assms])
  have v: "set xs \<subseteq> tree_verts t" "i \<notin> set xs"
    using tree_forest.chain_in_verts [OF wf xs(1)] i chain_distinct [OF xs(1)] by auto
  have node: "tree_get t x = Some (the (tree_get t x)) \<and> n_id (the (tree_get t x)) = x"
    if "x \<in> set xs" for x
    using that v(1) get_id [OF wf] by (auto simp: tree_verts_iff)
  then have "set (map (\<lambda>x. the (tree_get t x)) xs) \<subseteq> set (tree_nodes t)"
    by (auto simp: set_tree_nodes [OF tree_wfD(1) [OF wf]])
  moreover have "\<forall>a\<in>set (map (\<lambda>x. the (tree_get t x)) xs). n_id a \<noteq> i \<and> valid_node a"
    using node v(2) tree_wfD(2) [OF wf] unfolding values_ok_def by (metis (no_types, lifting) image_iff list.set_map)
  ultimately show thesis using that xs(2) by blast
qed

text \<open>
  C4. Resolving an inheritable field takes the nearest node on the way to the root that
  settles it. An explicit value there is the result, labelled as the node's own or as that
  ancestor's; a pinned default yields no value, labelled with the node that pinned it; when
  no node settles the field the label says that the walk reached the root.
\<close>

theorem resolve_takes_nearest:
  assumes wf: "tree_wf t" and n: "tree_get t i = Some n"
  shows "\<exists>as. ancestors t i = Inr as \<and> resolve_optional t i field = Inr
    (case find (settles field) (n # as) of
       None \<Rightarrow> \<lparr>r_value = None, r_provenance = DefaultAtRoot\<rparr>
     | Some a \<Rightarrow>
         (case field a of
            Some (Explicit v) \<Rightarrow>
              \<lparr>r_value = Some v, r_provenance = if n_id a = i then Own i else Ancestor (n_id a)\<rparr>
          | _ \<Rightarrow> \<lparr>r_value = None, r_provenance = DefaultAt (n_id a)\<rparr>))"
proof -
  have i: "i \<in> tree_verts t" using n by (auto simp: tree_verts_iff)
  obtain as where as: "ancestors t i = Inr as" "\<forall>a\<in>set as. n_id a \<noteq> i \<and> valid_node a"
    by (rule ancestors_nodes [OF wf i])
  have id: "n_id n = i" by (rule get_id [OF wf n])
  have other: "n_id a \<noteq> i" if "find (settles field) as = Some a" for a
    using that as(2) by (auto simp: find_Some_iff)
  have "resolve n as field =
    (case find (settles field) (n # as) of
       None \<Rightarrow> \<lparr>r_value = None, r_provenance = DefaultAtRoot\<rparr>
     | Some a \<Rightarrow>
         (case field a of
            Some (Explicit v) \<Rightarrow>
              \<lparr>r_value = Some v, r_provenance = if n_id a = i then Own i else Ancestor (n_id a)\<rparr>
          | _ \<Rightarrow> \<lparr>r_value = None, r_provenance = DefaultAt (n_id a)\<rparr>))"
  proof (cases "settles field n")
    case True
    then show ?thesis
      by (auto simp: resolve_def settles_def id resolved_defs split: option.splits inherited.splits)
  next
    case False
    then show ?thesis
      using other by (auto simp: resolve_skip resolve_ancestors_find resolved_defs
          split: option.splits inherited.splits)
  qed
  with as(1) n show ?thesis by (simp add: resolve_optional_def)
qed

definition sample_deep :: tree where
  "sample_deep = run_machine run_op
     [OpInsert ((sample_folder 1)\<lparr>n_kind := Folder (folder_default
        \<lparr>f_port := Explicit 2222, f_settings := [(lit ''term'', lit ''xterm'')]\<rparr>)\<rparr>),
      OpInsert (node_under (NodeId 1) 0 (sample_connection 3)),
      OpInsert (node_under (NodeId 1) 0 (sample_credential 4 3))] tree_new"

lemma sample_deep_wf: "tree_wf sample_deep"
  unfolding sample_deep_def by (rule tree_machine.run_inv [OF tree_new_wf]) simp

theorem resolve_takes_nearest_witness:
  "resolve_optional sample_deep (NodeId 3) port_field
     = Inr \<lparr>r_value = Some 2222, r_provenance = Ancestor (NodeId 1)\<rparr>"
proof -
  have n: "tree_get sample_deep (NodeId 3) = Some (node_under (NodeId 1) 0 (sample_connection 3))"
    by code_simp
  obtain as where as: "ancestors sample_deep (NodeId 3) = Inr as"
    and r: "resolve_optional sample_deep (NodeId 3) port_field = Inr
    (case find (settles port_field) (node_under (NodeId 1) 0 (sample_connection 3) # as) of
       None \<Rightarrow> \<lparr>r_value = None, r_provenance = DefaultAtRoot\<rparr>
     | Some a \<Rightarrow>
         (case port_field a of
            Some (Explicit v) \<Rightarrow>
              \<lparr>r_value = Some v, r_provenance = if n_id a = NodeId 3 then Own (NodeId 3) else Ancestor (n_id a)\<rparr>
          | _ \<Rightarrow> \<lparr>r_value = None, r_provenance = DefaultAt (n_id a)\<rparr>))"
    using resolve_takes_nearest [OF sample_deep_wf n, of port_field] by blast
  have "map_err (\<lambda>_. ()) (ancestors sample_deep (NodeId 3)) = Inr [(sample_folder 1)\<lparr>n_kind := Folder (folder_default
        \<lparr>f_port := Explicit 2222, f_settings := [(lit ''term'', lit ''xterm'')]\<rparr>)\<rparr>]" by code_simp
  then have as': "as = [(sample_folder 1)\<lparr>n_kind := Folder (folder_default
        \<lparr>f_port := Explicit 2222, f_settings := [(lit ''term'', lit ''xterm'')]\<rparr>)\<rparr>]"
    using as by simp
  show ?thesis unfolding r as' by code_simp
qed

text \<open>
  C17. Protocol settings merge key by key: the connection's own value wins, otherwise the
  nearest ancestor that sets the key gives the value and is named as its source; a key nobody
  sets is absent.
\<close>

theorem settings_nearest_wins:
  assumes wf: "tree_wf t" and n: "tree_get t i = Some n"
    and sorted: "\<forall>m\<in>set (tree_nodes t). settings_sorted m"
    and e: "effective_connection t i = Inr e"
  shows "\<exists>as. ancestors t i = Inr as \<and> map_of (e_settings e) key =
    (case setting_at key n of
       Some v \<Rightarrow> Some \<lparr>r_value = v, r_provenance = Own i\<rparr>
     | None \<Rightarrow>
         find_map (\<lambda>a. map_option (\<lambda>v. \<lparr>r_value = v, r_provenance = Ancestor (n_id a)\<rparr>) (setting_at key a)) as)"
proof -
  have i: "i \<in> tree_verts t" using n by (auto simp: tree_verts_iff)
  obtain as where as: "ancestors t i = Inr as" "set as \<subseteq> set (tree_nodes t)"
    by (rule ancestors_nodes [OF wf i])
  have id: "n_id n = i" by (rule get_id [OF wf n])
  have "n \<in> set (tree_nodes t)" using n id by (simp add: set_tree_nodes [OF tree_wfD(1) [OF wf]])
  with sorted as(2) have "settings_sorted n" "\<forall>a\<in>set as. settings_sorted a" by auto
  moreover have "e_settings e = merge_settings n as"
    using e n as(1) by (auto simp: effective_connection_def flatten_def Let_def result_simps)
  moreover have "(\<lambda>a. map_option (resolved_from_ancestor (n_id a)) (setting_at key a))
      = (\<lambda>a. map_option (\<lambda>v. \<lparr>r_value = v, r_provenance = Ancestor (n_id a)\<rparr>) (setting_at key a))"
    by (intro ext option.map_cong0) (simp add: resolved_defs)
  ultimately show ?thesis
    using as(1) by (simp add: merge_settings_get id resolved_own_def resolved_new_def split: option.split)
qed

theorem settings_nearest_wins_witness:
  "\<exists>e. effective_connection sample_deep (NodeId 3) = Inr e
     \<and> map_of (e_settings e) (lit ''term'') = Some \<lparr>r_value = lit ''xterm'', r_provenance = Ancestor (NodeId 1)\<rparr>"
proof -
  have n: "tree_get sample_deep (NodeId 3) = Some (node_under (NodeId 1) 0 (sample_connection 3))"
    by code_simp
  have s: "\<forall>m\<in>set (tree_nodes sample_deep). settings_sorted m" by code_simp
  have "is_ok (effective_connection sample_deep (NodeId 3))" by code_simp
  then obtain e where e: "effective_connection sample_deep (NodeId 3) = Inr e" by (auto simp: is_ok_iff)
  from settings_nearest_wins [OF sample_deep_wf n s e, of "lit ''term''"]
  obtain as where as: "ancestors sample_deep (NodeId 3) = Inr as" and m: "map_of (e_settings e) (lit ''term'') =
    (case setting_at (lit ''term'') (node_under (NodeId 1) 0 (sample_connection 3)) of
       Some v \<Rightarrow> Some \<lparr>r_value = v, r_provenance = Own (NodeId 3)\<rparr>
     | None \<Rightarrow> find_map (\<lambda>a. map_option (\<lambda>v. \<lparr>r_value = v, r_provenance = Ancestor (n_id a)\<rparr>)
         (setting_at (lit ''term'') a)) as)"
    by blast
  have "map_err (\<lambda>_. ()) (ancestors sample_deep (NodeId 3)) = Inr [(sample_folder 1)\<lparr>n_kind := Folder (folder_default
        \<lparr>f_port := Explicit 2222, f_settings := [(lit ''term'', lit ''xterm'')]\<rparr>)\<rparr>]" by code_simp
  then have as': "as = [(sample_folder 1)\<lparr>n_kind := Folder (folder_default
        \<lparr>f_port := Explicit 2222, f_settings := [(lit ''term'', lit ''xterm'')]\<rparr>)\<rparr>]"
    using as by simp
  have "map_of (e_settings e) (lit ''term'') = Some \<lparr>r_value = lit ''xterm'', r_provenance = Ancestor (NodeId 1)\<rparr>"
    unfolding m as' by code_simp
  with e show ?thesis by blast
qed

text \<open>
  C3. A detached copy behaves the same with no folder above it: it has no parent, and in
  any tree that holds it under its id and resolves credentials the same way, its effective
  connection has the same values in every field as the original's.
\<close>

theorem detached_behaves_the_same:
  assumes wf: "tree_wf t" and n: "tree_get t i = Some n" "n_kind n = Connection c"
    and sorted: "\<forall>m\<in>set (tree_nodes t). settings_sorted m"
  shows "\<exists>d e. detached t i = Inr d \<and> n_parent_id d = None \<and> effective_connection t i = Inr e
    \<and> (\<forall>t2. tree_get t2 i = Some d \<and> credential_props t2 = credential_props t \<longrightarrow>
         (\<exists>e2. effective_connection t2 i = Inr e2 \<and> effective_values e2 = effective_values e))"
proof -
  have i: "i \<in> tree_verts t" using n by (auto simp: tree_verts_iff)
  obtain as where as: "ancestors t i = Inr as" "set as \<subseteq> set (tree_nodes t)"
      "\<forall>a\<in>set as. n_id a \<noteq> i \<and> valid_node a"
    by (rule ancestors_nodes [OF wf i])
  have "n \<in> set (tree_nodes t)"
    using n get_id [OF wf n(1)] by (simp add: set_tree_nodes [OF tree_wfD(1) [OF wf]])
  with sorted as(2,3) have ok: "settings_sorted n" "\<forall>a\<in>set as. valid_node a \<and> settings_sorted a" by auto
  obtain s where s: "merge_ancestor_settings as (c_settings c) = Inr s"
    using merge_ancestor_settings_get ok(2) by blast
  then obtain d where d: "detached t i = Inr d"
    using n as(1) by (simp add: detached_def detach_kind_def)
  obtain c' where c': "n_kind d = Connection c'" "n_parent_id d = None"
    using detached_connection [OF d n as(1)] by blast
  have "\<exists>e2. effective_connection t2 i = Inr e2
      \<and> effective_values e2 = effective_values (flatten t i n c as)"
    if t2: "tree_get t2 i = Some d" "credential_props t2 = credential_props t" for t2
  proof -
    have "ancestors t2 i = Inr []" using t2(1) c'(2) by (simp add: ancestors_def ancestors_loop.simps)
    with t2 c' flatten_detached [OF d n as(1) ok(2,1) t2(2) c'(1)] show ?thesis
      by (simp add: effective_connection_def)
  qed
  moreover have "effective_connection t i = Inr (flatten t i n c as)"
    using n as(1) by (simp add: effective_connection_def)
  ultimately show ?thesis using d c'(2) by blast
qed

theorem detached_behaves_the_same_witness:
  "\<exists>d. detached sample_deep (NodeId 3) = Inr d \<and> n_parent_id d = None"
proof -
  have n: "tree_get sample_deep (NodeId 3) = Some (node_under (NodeId 1) 0 (sample_connection 3))"
    by code_simp
  have "as_connection (n_kind (node_under (NodeId 1) 0 (sample_connection 3))) \<noteq> None" by code_simp
  then obtain c where c: "n_kind (node_under (NodeId 1) 0 (sample_connection 3)) = Connection c"
    by (metis as_kind_Some_iff(1) not_None_eq)
  have s: "\<forall>m\<in>set (tree_nodes sample_deep). settings_sorted m" by code_simp
  from detached_behaves_the_same [OF sample_deep_wf n c s] show ?thesis by blast
qed

end
