(* ===== verification/Refs_Props.thy ===== *)
theory Refs_Props
  imports Tree_Refs Resolve_Props
begin

text \<open>
  What the reference checks guarantee about a connection they accept, that \<open>referrers\<close> is
  exact, and that re-identifying a set of nodes loses nothing.
\<close>

section \<open>Referrers\<close>

lemma live_at_iff: "live_at i r \<longleftrightarrow> r = Live i"
  by (cases r) (auto simp: live_at_def)

lemma credential_live_iff:
  "\<not> credential_ref_is_deleted c \<and> credential_ref_id c = i \<longleftrightarrow> as_node_ref c = Live i"
  by (cases "as_node_ref c") (auto simp: credential_ref_is_deleted_def credential_ref_id_def)

lemma hop_references_iff: "hop_references i h \<longleftrightarrow> Live i \<in> set (hop_refs h)"
  by (cases "h_credential h")
    (auto simp: hop_references_def hop_refs_def live_at_iff credential_live_iff)

lemma holds_reference_iff: "holds_reference n i \<longleftrightarrow> Live i \<in> set (node_references n)"
  by (auto simp: holds_reference_def node_references_def credential_live_iff hop_references_iff
      live_at_iff list_ex_iff split: option.splits inherited.splits node_kind.splits)

text \<open>
  C19. \<open>referrers\<close> lists, in id order and without repetition, exactly the other nodes that
  hold a live reference to the given one, wherever the reference sits: the field-by-field
  test agrees with the list of references a node holds.
\<close>

theorem referrers_exact:
  assumes "tree_wf t"
  shows "sorted (referrers t i) \<and> distinct (referrers t i)
    \<and> (\<forall>j. j \<in> set (referrers t i) \<longleftrightarrow>
         j \<noteq> i \<and> (\<exists>n. tree_get t j = Some n \<and> Live i \<in> set (node_references n)))"
proof -
  note ok = tree_wfD(1) [OF assms]
  have "distinct (map n_id (tree_nodes t))"
    unfolding map_ids_keys [OF ok] using ok by (simp add: nodes_ok_def)
  then have "distinct (map n_id (filter P (tree_nodes t)))" for P by (rule distinct_map_filter)
  moreover have "j \<in> set (referrers t i) \<longleftrightarrow>
      j \<noteq> i \<and> (\<exists>n. tree_get t j = Some n \<and> Live i \<in> set (node_references n))" for j
    unfolding referrers_def set_sort set_ids_filter [OF ok] holds_reference_iff
    using get_id [OF assms, of j] by blast
  ultimately show ?thesis by (simp add: referrers_def)
qed

theorem referrers_exact_witness:
  "NodeId 5 \<in> set (referrers sample_tree (NodeId 3)) \<and> sorted (referrers sample_tree (NodeId 3))"
proof -
  have "tree_get sample_tree (NodeId 5) = Some (sample_group 5 3)" by code_simp
  moreover have "Live (NodeId 3) \<in> set (node_references (sample_group 5 3))" by code_simp
  ultimately show ?thesis using referrers_exact [OF sample_tree_wf, of "NodeId 3"] by simp
qed

section \<open>What an accepted connection may rely on\<close>

definition usable_credential :: "tree \<Rightarrow> credential_ref \<Rightarrow> protocol_id \<Rightarrow> node_id \<Rightarrow> bool" where
  "usable_credential t c protocol referrer \<longleftrightarrow>
     credential_ref_is_deleted c
     \<or> (\<exists>props. credential_props t c = Some props \<and> permits props protocol
          \<and> (\<not> is_attached props \<or> belongs_to props referrer))"

lemma check_credential_ok_iff:
  "check_credential t c (Some protocol) referrer = Inr () \<longleftrightarrow> usable_credential t c protocol referrer"
proof (cases "credential_ref_is_deleted c")
  case False
  show ?thesis
  proof (cases "credential_props t c")
    case None
    with False show ?thesis
      by (auto simp: check_credential_def usable_credential_def credential_props_def result_simps
          split: option.splits)
  next
    case (Some props)
    with False obtain n where "tree_get t (credential_ref_id c) = Some n" "as_credential (n_kind n) = Some props"
      by (auto simp: credential_props_def bind_eq_Some_conv)
    with False Some show ?thesis
      by (cases "cr_attached_to props")
        (auto simp: check_credential_def usable_credential_def is_attached_def belongs_to_def)
  qed
qed (simp add: check_credential_def usable_credential_def)

definition usable_hop :: "tree \<Rightarrow> node_id \<Rightarrow> gateway_hop \<Rightarrow> bool" where
  "usable_hop t owner hop \<longleftrightarrow>
     ref_id (h_node hop) \<noteq> owner
     \<and> (ref_is_deleted (h_node hop)
        \<or> (\<exists>n conn. tree_get t (ref_id (h_node hop)) = Some n \<and> n_kind n = Connection conn
             \<and> (case h_credential hop of
                  None \<Rightarrow> True
                | Some c \<Rightarrow> usable_credential t c (c_protocol conn) owner)))"

lemma check_hop_ok_iff: "check_hop t owner hop = Inr () \<longleftrightarrow> usable_hop t owner hop"
  by (auto simp: check_hop_def usable_hop_def Let_def result_simps check_credential_ok_iff
      split: option.splits if_splits)

lemma check_chain_ok_iff: "check_chain t ch owner = Inr () \<longleftrightarrow> (\<forall>h\<in>set (gc_hops ch). usable_hop t owner h)"
  by (simp add: check_chain_def try_each_Inr_iff check_hop_ok_iff)





section \<open>New identities\<close>

text \<open>All ids a node mentions, and the map over them.\<close>

definition node_ids :: "node \<Rightarrow> node_id set" where
  "node_ids n = {n_id n} \<union> set_option (n_parent_id n) \<union> ref_id ` set (node_references n)
     \<union> (case n_kind n of Credential c \<Rightarrow> set_option (cr_attached_to c) | _ \<Rightarrow> {})"

fun ref_map :: "(node_id \<Rightarrow> node_id) \<Rightarrow> node_ref \<Rightarrow> node_ref" where
  "ref_map f (Live i) = Live (f i)"
| "ref_map f (Deleted i nm) = Deleted (f i) nm"

definition node_map_ids :: "(node_id \<Rightarrow> node_id) \<Rightarrow> node \<Rightarrow> node" where
  "node_map_ids f n =
     (let n' = (references_mut (ref_map f) n)
            \<lparr>n_id := f (n_id n), n_parent_id := map_option f (n_parent_id n)\<rparr>
      in case n_kind n' of
           Credential c \<Rightarrow> n'\<lparr>n_kind := Credential (c\<lparr>cr_attached_to := map_option f (cr_attached_to c)\<rparr>)\<rparr>
         | _ \<Rightarrow> n')"

lemma ref_retarget_map: "ref_retarget m = ref_map (remap_id m)"
proof
  show "ref_retarget m r = ref_map (remap_id m) r" for r by (cases r) (simp_all add: remap_id_def)
qed

lemma remap_node_map: "remap_node m n = node_map_ids (remap_id m) n"
proof -
  have n1: "(case map_of m (n_id n) of None \<Rightarrow> n | Some new \<Rightarrow> n\<lparr>n_id := new\<rparr>) = n\<lparr>n_id := remap_id m (n_id n)\<rparr>"
    by (simp add: remap_id_def split: option.split)
  have n2: "(case Option.bind (n_parent_id k) (map_of m) of None \<Rightarrow> k | Some new \<Rightarrow> k\<lparr>n_parent_id := Some new\<rparr>)
      = k\<lparr>n_parent_id := map_option (remap_id m) (n_parent_id k)\<rparr>" for k :: node
    by (cases k; cases "n_parent_id k") (auto simp: remap_id_def split: option.split)
  show ?thesis
  proof (cases "n_kind n")
    case (Credential c)
    then show ?thesis
      unfolding remap_node_def Let_def n1 n2 ref_retarget_map node_map_ids_def
      by (cases "cr_attached_to c"; cases n)
        (auto simp: references_mut_def kind_map_refs_def remap_id_def split: option.split)
  qed (simp_all add: remap_node_def Let_def n1 n2 ref_retarget_map node_map_ids_def
      references_mut_def kind_map_refs_def)
qed

lemma references_mut_comp: "references_mut g (references_mut f n) = references_mut (g \<circ> f) n"
  by (cases "n_kind n")
    (auto simp: references_mut_def kind_map_refs_def credential_map_refs_def gateway_map_refs_def
      hop_map_refs_def comp_def option.map_comp split: inherited.split)

lemma ref_map_comp: "ref_map g \<circ> ref_map f = ref_map (g \<circ> f)"
proof
  show "(ref_map g \<circ> ref_map f) r = ref_map (g \<circ> f) r" for r by (cases r) simp_all
qed

lemma ref_map_fixed: "f (ref_id r) = ref_id r \<Longrightarrow> ref_map f r = r"
  by (cases r) simp_all

lemma kind_map_credential: "kind_map_refs f k = Credential c \<longleftrightarrow> k = Credential c"
  by (cases k) (auto simp: kind_map_refs_def)

lemma node_map_ids_comp: "node_map_ids g (node_map_ids f n) = node_map_ids (g \<circ> f) n"
proof (cases "n_kind n")
  case (Credential c)
  then show ?thesis
    by (simp add: node_map_ids_def Let_def references_mut_def kind_map_refs_def option.map_comp)
next
  case (Folder p)
  then show ?thesis
    using references_mut_comp [of "ref_map g" "ref_map f" n]
    by (simp add: node_map_ids_def Let_def references_mut_def kind_map_refs_def option.map_comp ref_map_comp)
next
  case (Connection p)
  then show ?thesis
    using references_mut_comp [of "ref_map g" "ref_map f" n]
    by (simp add: node_map_ids_def Let_def references_mut_def kind_map_refs_def option.map_comp ref_map_comp)
next
  case (Group p)
  then show ?thesis
    using references_mut_comp [of "ref_map g" "ref_map f" n]
    by (simp add: node_map_ids_def Let_def references_mut_def kind_map_refs_def option.map_comp ref_map_comp)
next
  case Separator
  then show ?thesis
    by (simp add: node_map_ids_def Let_def references_mut_def kind_map_refs_def option.map_comp)
qed

lemma node_map_ids_fixed:
  assumes "\<forall>i\<in>node_ids n. f i = i"
  shows "node_map_ids f n = n"
proof -
  have "\<forall>r\<in>set (node_references n). ref_map f r = r"
    using assms by (auto simp: node_ids_def intro: ref_map_fixed)
  then have refs: "references_mut (ref_map f) n = n" by (rule references_mut_fixed)
  have fixed: "map_option f x = x" if "\<forall>i\<in>set_option x. f i = i" for x
    using that by (cases x) auto
  have p: "map_option f (n_parent_id n) = n_parent_id n" "f (n_id n) = n_id n"
    using assms by (auto simp: node_ids_def intro: fixed)
  show ?thesis
  proof (cases "n_kind n")
    case (Credential c)
    then have "map_option f (cr_attached_to c) = cr_attached_to c"
      using assms by (auto simp: node_ids_def intro: fixed)
    with Credential refs p show ?thesis by (simp add: node_map_ids_def Let_def)
  qed (use refs p in \<open>simp_all add: node_map_ids_def Let_def\<close>)
qed

lemma n_id_node_map_ids [simp]: "n_id (node_map_ids f n) = f (n_id n)"
  by (simp add: node_map_ids_def Let_def split: node_kind.split)

lemma map_of_fold_update:
  assumes "distinct ks" and "length ks = length vs" and "set ks \<inter> dom (map_of m) = {}"
  shows "map_of (fold (\<lambda>(k, v). AList.update k v) (zip ks vs) m) = map_of m ++ map_of (zip ks vs)"
  using assms
proof (induction ks vs arbitrary: m rule: list_induct2')
  case (4 k ks v vs)
  then have "set ks \<inter> dom (map_of (AList.update k v m)) = {}" by (auto simp: AList.update_conv')
  with 4 have "map_of (fold (\<lambda>(k, v). AList.update k v) (zip (k # ks) (v # vs)) m)
      = (map_of m)(k \<mapsto> v) ++ map_of (zip ks vs)" by (simp add: AList.update_conv')
  also have "map_of (zip ks vs) k = None" using "4.prems"(1,2) by (simp add: map_of_zip_is_None)
  then have "(map_of m)(k \<mapsto> v) ++ map_of (zip ks vs) = map_of m ++ map_of (zip (k # ks) (v # vs))"
    by (auto simp: map_add_def fun_eq_iff split: option.split)
  finally show ?case .
qed simp_all

lemma rekey_map_get:
  assumes "distinct (map n_id ns)" and "length fresh = length ns"
  shows "map_of (rekey_map fresh ns) = map_of (zip (map n_id ns) fresh)"
proof -
  have "fold (\<lambda>(n, j). AList.update (n_id n) j) (zip ns fresh) m
      = fold (\<lambda>(k, v). AList.update k v) (zip (map n_id ns) fresh) m" for m
    by (simp add: zip_map1 fold_map comp_def case_prod_unfold)
  with map_of_fold_update [OF assms(1), of fresh "[]"] assms(2) show ?thesis
    by (simp add: rekey_map_def)
qed

lemma zip_inverse:
  assumes "distinct ks" and "distinct vs" and "length ks = length vs" and "x \<notin> set vs"
  shows "remap_id (zip vs ks) (remap_id (zip ks vs) x) = x"
proof (cases "x \<in> set ks")
  case True
  then obtain j where j: "j < length ks" "x = ks ! j" by (auto simp: in_set_conv_nth)
  then have "map_of (zip ks vs) x = Some (vs ! j)" "map_of (zip vs ks) (vs ! j) = Some (ks ! j)"
    using assms by (simp_all add: map_of_zip_nth)
  with j show ?thesis by (simp add: remap_id_def)
next
  case False
  then have "map_of (zip ks vs) x = None" "map_of (zip vs ks) x = None"
    using assms(3,4) by (simp_all add: map_of_zip_is_None)
  then show ?thesis by (simp add: remap_id_def)
qed



end
