(* ===== verification/Host_Port.thy ===== *)
theory Host_Port
  imports Validate_Text
begin

text \<open>
  \<open>HostPort\<close> of \<open>crates/remoter-proto/src/transport.rs\<close>: a validated endpoint, kept as typed
  and compared by its canonical form.
\<close>

section \<open>Text operations\<close>

definition ascii_lower :: "nat \<Rightarrow> nat" where
  "ascii_lower c = (if is_ascii_uppercase c then c + 32 else c)"

definition to_ascii_lowercase :: "rstring \<Rightarrow> rstring" where
  "to_ascii_lowercase s = map ascii_lower s"

definition split_once :: "nat \<Rightarrow> rstring \<Rightarrow> (rstring \<times> rstring) option" where
  "split_once c s =
     (if c \<in> set s then Some (takeWhile (\<lambda>x. x \<noteq> c) s, tl (dropWhile (\<lambda>x. x \<noteq> c) s)) else None)"

text \<open>The decimal digits \<open>Display\<close> writes for an unsigned integer.\<close>

fun decimal :: "nat \<Rightarrow> rstring" where
  "decimal n = (if n < 10 then [0x30 + n] else decimal (n div 10) @ [0x30 + n mod 10])"

declare decimal.simps [simp del]

section \<open>Endpoints\<close>

record host_port =
  hp_host :: rstring
  hp_port :: u16

definition canonical_host :: "rstring \<Rightarrow> rstring" where
  "canonical_host host =
     (case strip_prefix 0x5B host of
        Some inner \<Rightarrow>
          (case strip_suffix 0x5D inner of
             None \<Rightarrow> host
           | Some body \<Rightarrow>
               (case split_once 0x25 body of
                  None \<Rightarrow> [0x5B] @ to_ascii_lowercase body @ [0x5D]
                | Some (address, zone) \<Rightarrow>
                    [0x5B] @ to_ascii_lowercase address @ [0x25] @ zone @ [0x5D]))
      | None \<Rightarrow>
          if parse_ipv4 host \<noteq> None then host
          else
            let trimmed = (case strip_suffix 0x2E host of None \<Rightarrow> host | Some t \<Rightarrow> t) in
            if list_ex is_ascii_uppercase (str_bytes trimmed) then to_ascii_lowercase trimmed
            else if length (str_bytes trimmed) = length (str_bytes host) then host
            else trimmed)"

definition host_port_canonical :: "host_port \<Rightarrow> rstring" where
  "host_port_canonical hp = canonical_host (hp_host hp) @ [0x3A] @ decimal (unat (hp_port hp))"

text \<open>\<open>PartialEq\<close> and what \<open>Hash\<close> feeds to the hasher.\<close>

definition host_port_eq :: "host_port \<Rightarrow> host_port \<Rightarrow> bool" where
  "host_port_eq a b \<longleftrightarrow>
     hp_port a = hp_port b \<and> canonical_host (hp_host a) = canonical_host (hp_host b)"

definition host_port_hash :: "host_port \<Rightarrow> rstring \<times> u16" where
  "host_port_hash hp = (canonical_host (hp_host hp), hp_port hp)"

definition host_port_display :: "host_port \<Rightarrow> rstring" where
  "host_port_display hp = hp_host hp @ [0x3A] @ decimal (unat (hp_port hp))"

section \<open>Lowercasing and the parsers\<close>

named_theorems lower_simps \<open>what lowercasing leaves alone\<close>

lemma ascii_lower_fixed [lower_simps]:
  "ascii_lower c = 0x2E \<longleftrightarrow> c = 0x2E" "ascii_lower c = 0x3A \<longleftrightarrow> c = 0x3A"
  "ascii_lower c = 0x2D \<longleftrightarrow> c = 0x2D" "ascii_lower c = 0x5B \<longleftrightarrow> c = 0x5B"
  "ascii_lower c = 0x25 \<longleftrightarrow> c = 0x25" "ascii_lower c = 0x30 \<longleftrightarrow> c = 0x30"
  by (auto simp: ascii_lower_def is_ascii_uppercase_def)

lemma ascii_lower_classes [lower_simps]:
  "is_ascii_digit (ascii_lower c) = is_ascii_digit c"
  "is_ascii_alphanumeric (ascii_lower c) = is_ascii_alphanumeric c"
  "is_ascii_uppercase (ascii_lower c) = False"
  by (auto simp: ascii_lower_def char_class_defs)

lemma ascii_lower_idem [simp]: "ascii_lower (ascii_lower c) = ascii_lower c"
  by (simp add: ascii_lower_def char_class_defs)

lemma to_digit_lower [lower_simps]: "to_digit r (ascii_lower c) = to_digit r c"
  by (auto simp: to_digit_def ascii_lower_def char_class_defs)

lemma to_ascii_lowercase_idem [simp]:
  "to_ascii_lowercase (to_ascii_lowercase s) = to_ascii_lowercase s"
  by (simp add: to_ascii_lowercase_def)

lemma utf8_char_lower: "utf8_char (ascii_lower c) = map ascii_lower (utf8_char c)"
proof (cases "c < 0x80")
  case True
  then show ?thesis by (simp add: ascii_lower_def is_ascii_uppercase_def utf8_char_def)
next
  case False
  have high: "ascii_lower b = b" if "0x80 \<le> b" for b
    using that by (simp add: ascii_lower_def is_ascii_uppercase_def)
  from False show ?thesis by (auto simp: high utf8_char_def)
qed

lemma str_bytes_lower [lower_simps]:
  "str_bytes (map ascii_lower s) = map ascii_lower (str_bytes s)"
  by (induction s) (simp_all add: utf8_char_lower)

lemma split_on_lower: "split_on 0x2E (map ascii_lower s) = map (map ascii_lower) (split_on 0x2E s)"
  by (induction s) (auto simp: lower_simps split: list.splits)

text \<open>A parser that reads digits and separators does not see the case of its input.\<close>

definition case_blind :: "'a parser \<Rightarrow> bool" where
  "case_blind p \<longleftrightarrow>
     (\<forall>inp. p (map ascii_lower inp) = map_option (map_prod id (map ascii_lower)) (p inp))"

lemma case_blindD: "case_blind p \<Longrightarrow> p (map ascii_lower inp) = map_option (map_prod id (map ascii_lower)) (p inp)"
  by (simp add: case_blind_def)

lemma digits_value_lower: "digits_value r (map ascii_lower ds) = digits_value r ds"
  by (simp add: digits_value_def foldl_map lower_simps)

lemma case_blind_read_number: "case_blind (read_number r n z m)"
  unfolding case_blind_def
proof
  fix inp
  have run: "takeWhile (\<lambda>c. to_digit r c \<noteq> None) (map ascii_lower inp)
      = map ascii_lower (takeWhile (\<lambda>c. to_digit r c \<noteq> None) inp)"
    by (simp add: takeWhile_map comp_def lower_simps)
  define ds where "ds = takeWhile (\<lambda>c. to_digit r c \<noteq> None) inp"
  show "read_number r n z m (map ascii_lower inp)
      = map_option (map_prod id (map ascii_lower)) (read_number r n z m inp)"
    unfolding read_number_def Let_def run ds_def [symmetric]
    by (cases ds) (simp_all add: digits_value_lower [of r "_ # _", simplified] drop_map lower_simps)
qed

lemma case_blind_read_separator:
  assumes "case_blind p" and "sep = 0x2E \<or> sep = 0x3A"
  shows "case_blind (read_separator sep i p)"
proof -
  have "read_given_char sep (map ascii_lower inp)
      = map_option (map_prod id (map ascii_lower)) (read_given_char sep inp)" for inp
    using assms(2) by (cases inp) (auto simp: lower_simps)
  then show ?thesis
    by (auto simp: case_blind_def read_separator_def case_blindD [OF assms(1)] split: option.splits prod.splits)
qed


lemmas case_blind_number_after =
  case_blindD [OF case_blind_read_separator [OF case_blind_read_number]]

lemma case_blind_read_octets: "case_blind (read_octets n i)"
proof (induction n arbitrary: i)
  case 0
  then show ?case by (simp add: case_blind_def)
next
  case (Suc n)
  show ?case
    unfolding case_blind_def
    by (auto simp: case_blind_number_after case_blindD [OF Suc.IH] split: option.splits prod.splits)
qed

lemma case_blind_read_ipv4: "case_blind read_ipv4_addr"
  by (simp add: read_ipv4_addr_def case_blind_read_octets)

lemma read_groups_lower:
  "read_groups n i (map ascii_lower inp) = map_prod id (map_prod id (map ascii_lower)) (read_groups n i inp)"
proof (induction n arbitrary: i inp)
  case 0
  then show ?case by simp
next
  case (Suc n)
  have v4: "read_separator 0x3A i read_ipv4_addr (map ascii_lower inp)
      = map_option (map_prod id (map ascii_lower)) (read_separator 0x3A i read_ipv4_addr inp)"
    by (rule case_blindD [OF case_blind_read_separator [OF case_blind_read_ipv4]]) simp
  show ?case
    by (auto simp: v4 case_blind_number_after Suc.IH split: option.splits prod.splits)
qed

lemma read_given_char_lower:
  "read_given_char 0x3A (map ascii_lower inp)
    = map_option (map_prod id (map ascii_lower)) (read_given_char 0x3A inp)"
  by (cases inp) (auto simp: lower_simps)

lemma case_blind_read_ipv6: "case_blind read_ipv6_addr"
  unfolding case_blind_def read_ipv6_addr_def
  by (auto simp: read_groups_lower read_given_char_lower split: option.splits prod.splits)

lemma parse_all_lower: "case_blind p \<Longrightarrow> parse_all p (map ascii_lower inp) = parse_all p inp"
  by (auto simp: parse_all_def case_blindD split: option.splits list.splits)

lemma parse_ipv6_lower [lower_simps]: "parse_ipv6 (map ascii_lower s) = parse_ipv6 s"
  by (simp add: parse_ipv6_def str_bytes_lower parse_all_lower [OF case_blind_read_ipv6])

lemma parse_ipv4_lower [lower_simps]: "parse_ipv4 (map ascii_lower s) = parse_ipv4 s"
  by (simp add: parse_ipv4_def str_bytes_lower parse_all_lower [OF case_blind_read_ipv4])

lemma list_all_lower: "list_all P (map ascii_lower s) \<longleftrightarrow> list_all (\<lambda>b. P (ascii_lower b)) s"
  by (induction s) simp_all

lemma dns_labels_lower:
  "dns_labels (map ascii_lower l) (map (map ascii_lower) ls)
    = map_sum id (map ascii_lower) (dns_labels l ls)"
proof (induction ls arbitrary: l)
  case Nil
  then show ?case by simp
next
  case (Cons a ls)
  have "starts_with 0x2D (map ascii_lower a) = starts_with 0x2D a"
    "ends_with 0x2D (map ascii_lower a) = ends_with 0x2D a"
    by (cases "a = []"; simp add: starts_with_def ends_with_def hd_map last_map lower_simps)+
  with Cons show ?case by (simp add: list_all_lower lower_simps)
qed

text \<open>The labels of an accepted name are not empty, so it does not end with a dot.\<close>

lemma dns_labels_nonempty: "dns_labels l ls = Inr x \<Longrightarrow> [] \<notin> set ls"
  by (induction ls arbitrary: l) (auto split: if_splits)

lemma split_on_tl: "s \<noteq> [] \<Longrightarrow> last s = c \<Longrightarrow> [] \<in> set (tl (split_on c s))"
  by (induction s) (auto split: list.splits if_splits)

lemma split_on_last: "s \<noteq> [] \<Longrightarrow> last s = c \<Longrightarrow> [] \<in> set (split_on c s)"
  using split_on_tl by (metis list.set_sel(2) split_on_not_Nil)

definition strip_dot :: "rstring \<Rightarrow> rstring" where
  "strip_dot h = (case strip_suffix 0x2E h of None \<Rightarrow> h | Some t \<Rightarrow> t)"

lemma strip_dot_lower: "strip_dot (map ascii_lower h) = map ascii_lower (strip_dot h)"
  by (cases "h = []") (simp_all add: strip_dot_def strip_suffix_def last_map lower_simps map_butlast)

lemma strip_dot_append: "strip_suffix 0x2E h = None \<Longrightarrow> strip_dot (h @ [0x2E]) = h"
  by (simp add: strip_dot_def strip_suffix_def)

lemma strip_dot_valid: "validate_dns_name h = Inr () \<Longrightarrow> strip_suffix 0x2E (strip_dot h) = None"
  unfolding validate_dns_name_def strip_dot_def [symmetric]
  by (auto simp: Let_def strip_suffix_def result_simps dest!: dns_labels_nonempty
      split: if_splits intro: split_on_last)

lemma validate_dns_name_strip: "validate_dns_name h = Inr () \<Longrightarrow> validate_dns_name (strip_dot h) = Inr ()"
  using strip_dot_valid [of h] unfolding validate_dns_name_def strip_dot_def [symmetric]
  by (simp add: strip_dot_def)

lemma validate_dns_name_lower: "validate_dns_name (map ascii_lower h) = validate_dns_name h"
proof -
  have "dns_labels [] (split_on 0x2E (map ascii_lower s))
      = map_sum id (map ascii_lower) (dns_labels [] (split_on 0x2E s))" for s
    using dns_labels_lower [of "[]" "split_on 0x2E s"] by (simp add: split_on_lower)
  then show ?thesis
    unfolding validate_dns_name_def strip_dot_def [symmetric]
    by (cases "dns_labels [] (split_on 0x2E (strip_dot h))")
      (simp_all add: Let_def strip_dot_lower list_all_lower lower_simps)
qed


lemma canonical_dns:
  assumes "strip_prefix 0x5B h = None" and "parse_ipv4 h = None"
  shows "canonical_host h = to_ascii_lowercase (strip_dot h)"
proof -
  have id: "map ascii_lower t = t" if "\<not> list_ex is_ascii_uppercase (str_bytes t)" for t
    using that
  proof (induction t)
    case Nil
    then show ?case by simp
  next
    case (Cons c t)
    then have "\<not> is_ascii_uppercase c"
      by (cases "c < 0x80") (auto simp: is_ascii_uppercase_def)
    with Cons show ?case by (simp add: ascii_lower_def)
  qed
  have same: "strip_dot h = h" if "length (str_bytes (strip_dot h)) = length (str_bytes h)"
  proof (cases "strip_suffix 0x2E h")
    case None
    then show ?thesis by (simp add: strip_dot_def)
  next
    case (Some t)
    then have "h = t @ [0x2E]"
      by (auto simp: strip_suffix_def split: if_splits) (metis append_butlast_last_id)
    with Some that show ?thesis by (simp add: strip_dot_def str_bytes_def)
  qed
  show ?thesis
    using assms id [of "strip_dot h"] same
    by (simp add: canonical_host_def strip_dot_def [symmetric] Let_def to_ascii_lowercase_def) metis
qed

lemma strip_prefix_lower: "strip_prefix 0x5B (map ascii_lower h) = map_option (map ascii_lower) (strip_prefix 0x5B h)"
  by (cases h) (auto simp: lower_simps)

lemma strip_prefix_dot: "strip_prefix 0x5B h = None \<Longrightarrow> strip_prefix 0x5B (strip_dot h) = None"
  by (cases h) (auto simp: strip_dot_def strip_suffix_def)

text \<open>The form of a valid host: a bracketed address, an IPv4 literal or a DNS name.\<close>

lemma valid_host_cases:
  assumes "validate_host h = Inr ()"
  obtains (v6) body where "h = [0x5B] @ body @ [0x5D]"
      "parse_ipv6 (case split_once_fst 0x25 body of None \<Rightarrow> body | Some a \<Rightarrow> a) \<noteq> None"
    | (v4) "strip_prefix 0x5B h = None" "parse_ipv4 h \<noteq> None"
    | (dns) "strip_prefix 0x5B h = None" "parse_ipv4 h = None" "0x3A \<notin> set h" "validate_dns_name h = Inr ()"
proof (cases "strip_prefix 0x5B h")
  case None
  with assms show thesis
    by (cases "parse_ipv4 h = None") (auto simp: validate_host_def result_simps split: if_splits intro: v4 dns)
next
  case (Some inner)
  then have h: "h = 0x5B # inner" by (cases h) (auto split: if_splits)
  from assms Some obtain body where body: "strip_suffix 0x5D inner = Some body"
    by (auto simp: validate_host_def split: if_splits option.splits)
  then have "inner = body @ [0x5D]"
    by (auto simp: strip_suffix_def split: if_splits) (metis append_butlast_last_id)
  with assms Some body h show thesis
    by (intro v6 [of body]) (auto simp: validate_host_def Let_def split: if_splits option.splits)
qed


text \<open>What the canonical form of each kind of host is, and that it is again a host of that kind.\<close>

lemma canonical_v6:
  "canonical_host ([0x5B] @ body @ [0x5D]) =
     (case split_once 0x25 body of
        None \<Rightarrow> [0x5B] @ map ascii_lower body @ [0x5D]
      | Some (a, z) \<Rightarrow> [0x5B] @ (map ascii_lower a @ [0x25] @ z) @ [0x5D])"
  by (auto simp: canonical_host_def strip_suffix_def to_ascii_lowercase_def butlast_append
      split: option.splits)

lemma colon_lower: "0x3A \<in> ascii_lower ` set s \<longleftrightarrow> 0x3A \<in> set s"
  by (force simp: ascii_lower_def is_ascii_uppercase_def)

lemma percent_lower [simp]: "0x25 \<in> ascii_lower ` set s \<longleftrightarrow> 0x25 \<in> set s"
  by (force simp: ascii_lower_def is_ascii_uppercase_def)

lemma split_once_None_lower:
  "split_once 0x25 body = None \<Longrightarrow> split_once 0x25 (map ascii_lower body) = None"
  by (simp add: split_once_def split: if_splits)

lemma split_once_fst_eq: "split_once_fst c s = map_option fst (split_once c s)"
  by (simp add: split_once_fst_def split_once_def)

lemma split_once_join: "c \<notin> set a \<Longrightarrow> split_once c (a @ [c] @ z) = Some (a, z)"
  by (simp add: split_once_def takeWhile_append dropWhile_append)

lemma split_once_parts: "split_once c s = Some (a, z) \<Longrightarrow> c \<notin> set a"
  by (auto simp: split_once_def dest: set_takeWhileD split: if_splits)

lemma split_once_eq:
  assumes "split_once c s = Some (a, z)" shows "s = a @ c # z"
proof -
  have "dropWhile (\<lambda>x. x \<noteq> c) s \<noteq> []" "a = takeWhile (\<lambda>x. x \<noteq> c) s" "z = tl (dropWhile (\<lambda>x. x \<noteq> c) s)"
    using assms by (auto simp: split_once_def split: if_splits)
  moreover from this(1) have "hd (dropWhile (\<lambda>x. x \<noteq> c) s) = c"
    using hd_dropWhile [of "\<lambda>x. x \<noteq> c" s] by blast
  ultimately have "a @ c # z = takeWhile (\<lambda>x. x \<noteq> c) s @ dropWhile (\<lambda>x. x \<noteq> c) s"
    by (metis list.collapse)
  then show ?thesis by simp
qed

lemma canonical_v6_body:
  obtains b where "canonical_host ([0x5B] @ body @ [0x5D]) = [0x5B] @ b @ [0x5D]"
    and "canonical_host ([0x5B] @ b @ [0x5D]) = [0x5B] @ b @ [0x5D]"
    and "parse_ipv6 (case split_once_fst 0x25 b of None \<Rightarrow> b | Some a \<Rightarrow> a)
       = parse_ipv6 (case split_once_fst 0x25 body of None \<Rightarrow> body | Some a \<Rightarrow> a)"
proof (cases "split_once 0x25 body")
  case None
  note low = split_once_None_lower [OF None]
  show thesis
    by (rule that [of "map ascii_lower body"])
      (simp_all add: canonical_v6 [simplified] None low split_once_fst_eq lower_simps comp_def)
next
  case (Some az)
  obtain a z where az: "az = (a, z)" by (cases az)
  have "0x25 \<notin> set (map ascii_lower a)"
    using split_once_parts [OF Some [unfolded az]] by simp
  then have low: "split_once 0x25 (map ascii_lower a @ [0x25] @ z) = Some (map ascii_lower a, z)"
    by (rule split_once_join)
  let ?b = "map ascii_lower a @ [0x25] @ z"
  have "map ascii_lower (map ascii_lower a) = map ascii_lower a" by simp
  then have "canonical_host ([0x5B] @ ?b @ [0x5D]) = [0x5B] @ ?b @ [0x5D]"
    by (simp only: canonical_v6 [of ?b] low option.case prod.case)
  moreover have "canonical_host ([0x5B] @ body @ [0x5D]) = [0x5B] @ ?b @ [0x5D]"
    by (simp only: canonical_v6 Some az option.case prod.case)
  moreover have "parse_ipv6 (case split_once_fst 0x25 ?b of None \<Rightarrow> ?b | Some a \<Rightarrow> a)
       = parse_ipv6 (case split_once_fst 0x25 body of None \<Rightarrow> body | Some a \<Rightarrow> a)"
    by (simp add: split_once_fst_eq low [simplified] Some az parse_ipv6_lower)
  ultimately show thesis using that [of ?b] by blast
qed

lemma validate_v6:
  "validate_host ([0x5B] @ body @ [0x5D]) = Inr () \<longleftrightarrow>
     parse_ipv6 (case split_once_fst 0x25 body of None \<Rightarrow> body | Some a \<Rightarrow> a) \<noteq> None"
  by (auto simp: validate_host_def strip_suffix_def butlast_append Let_def split: option.splits)

text \<open>The host a text denotes when it is an address; a DNS name denotes none here.\<close>

definition host_address :: "rstring \<Rightarrow> nat list option" where
  "host_address h =
     (case strip_prefix 0x5B h of
        Some inner \<Rightarrow>
          (case strip_suffix 0x5D inner of
             None \<Rightarrow> None
           | Some body \<Rightarrow> parse_ipv6 (case split_once_fst 0x25 body of None \<Rightarrow> body | Some a \<Rightarrow> a))
      | None \<Rightarrow> parse_ipv4 h)"

lemma host_address_v6:
  "host_address ([0x5B] @ body @ [0x5D]) =
     parse_ipv6 (case split_once_fst 0x25 body of None \<Rightarrow> body | Some a \<Rightarrow> a)"
  by (simp add: host_address_def strip_suffix_def butlast_append)


text \<open>An IPv4 literal is digits and dots and ends with a digit.\<close>

lemma read_number_consumes:
  assumes "read_number r n z m inp = Some (v, rest)"
  shows "\<exists>pre. inp = pre @ rest \<and> pre \<noteq> [] \<and> (\<forall>c\<in>set pre. to_digit r c \<noteq> None)"
proof -
  define ds where "ds = takeWhile (\<lambda>c. to_digit r c \<noteq> None) inp"
  from assms have ds: "ds \<noteq> []" "rest = drop (length ds) inp"
    unfolding read_number_def Let_def ds_def [symmetric] by (auto split: if_splits)
  have "inp = ds @ rest"
    unfolding ds(2) ds_def by (metis dropWhile_eq_drop takeWhile_dropWhile_id)
  moreover have "\<forall>c\<in>set ds. to_digit r c \<noteq> None"
    unfolding ds_def by (blast dest: set_takeWhileD)
  ultimately show ?thesis using ds(1) by blast
qed

definition dotted :: "nat \<Rightarrow> bool" where
  "dotted c \<longleftrightarrow> c = 0x2E \<or> to_digit 10 c \<noteq> None"

lemma read_octet_consumes:
  assumes "read_separator 0x2E i (read_number 10 3 False 255) inp = Some (v, rest)"
  shows "\<exists>pre. inp = pre @ rest \<and> pre \<noteq> [] \<and> list_all dotted pre \<and> to_digit 10 (last pre) \<noteq> None"
proof -
  obtain sep inp' where sep: "inp = sep @ inp'" "sep = [] \<or> sep = [0x2E]"
    and num: "read_number 10 3 False 255 inp' = Some (v, rest)"
  proof (cases inp)
    case Nil
    with assms that [of "[]" "[]"] show thesis by (simp add: read_separator_def split: if_splits)
  next
    case (Cons c cs)
    with assms that [of "[]" inp] that [of "[0x2E]" cs] show thesis
      by (auto simp: read_separator_def split: if_splits)
  qed
  from read_number_consumes [OF num] obtain pre where
    pre: "inp' = pre @ rest" "pre \<noteq> []" "\<forall>c\<in>set pre. to_digit 10 c \<noteq> None" by blast
  then have "to_digit 10 (last (sep @ pre)) \<noteq> None" using last_in_set [OF pre(2)] by simp
  moreover have "list_all dotted (sep @ pre)"
    using sep(2) pre(3) by (auto simp: dotted_def list_all_iff)
  ultimately show ?thesis using sep(1) pre by (intro exI [where x = "sep @ pre"]) simp
qed

lemma read_octets_consumes:
  "read_octets n i inp = Some (os, rest) \<Longrightarrow>
     \<exists>pre. inp = pre @ rest \<and> list_all dotted pre \<and> (0 < n \<longrightarrow> pre \<noteq> [] \<and> to_digit 10 (last pre) \<noteq> None)"
proof (induction n arbitrary: i inp os)
  case 0
  then show ?case by simp
next
  case (Suc n)
  then obtain v r os' where first: "read_separator 0x2E i (read_number 10 3 False 255) inp = Some (v, r)"
    and more: "read_octets n (Suc i) r = Some (os', rest)"
    by (auto split: option.splits prod.splits)
  from read_octet_consumes [OF first] obtain pre where
    pre: "inp = pre @ r" "pre \<noteq> []" "list_all dotted pre" "to_digit 10 (last pre) \<noteq> None" by blast
  from Suc.IH [OF more] obtain p where
    p: "r = p @ rest" "list_all dotted p" "0 < n \<longrightarrow> p \<noteq> [] \<and> to_digit 10 (last p) \<noteq> None" by blast
  show ?case
    using pre p more by (cases n) (auto intro!: exI [where x = "pre @ p"])
qed

lemma parse_ipv4_dotted:
  assumes "parse_ipv4 h \<noteq> None"
  shows "list_all dotted h \<and> h \<noteq> [] \<and> last h \<noteq> 0x2E"
proof -
  from assms obtain os where "read_octets 4 0 (str_bytes h) = Some (os, [])"
    by (auto simp: parse_ipv4_def parse_all_def read_ipv4_addr_def split: if_splits option.splits list.splits)
  from read_octets_consumes [OF this] have *: "list_all dotted (str_bytes h)"
    "str_bytes h \<noteq> []" "to_digit 10 (last (str_bytes h)) \<noteq> None" by auto
  have small: "dotted b \<Longrightarrow> b < 0x80" for b
    by (auto simp: dotted_def to_digit_def char_class_defs split: if_splits)
  have all: "list_all dotted h" using *(1) list_all_str_bytes [of dotted h, OF small] by simp
  then have "str_bytes h = h" by (intro str_bytes_ascii) (auto simp: list_all_iff dest: small)
  with * all show ?thesis by (auto simp: to_digit_def char_class_defs)
qed

lemma parse_ipv4_dot: "parse_ipv4 (h @ [0x2E]) = None"
  using parse_ipv4_dotted [of "h @ [0x2E]"] by (cases "parse_ipv4 (h @ [0x2E])") auto

lemma parse_ipv4_no_case:
  assumes "parse_ipv4 h \<noteq> None" shows "map ascii_lower h = h"
proof -
  have "ascii_lower c = c" if "dotted c" for c
    using that by (auto simp: dotted_def to_digit_def ascii_lower_def char_class_defs split: if_splits)
  with parse_ipv4_dotted [OF assms] show ?thesis by (auto simp: list_all_iff map_fixes_iff)
qed

section \<open>One machine, one identity\<close>




end
