(* ===== verification/Proto_Error.thy ===== *)
theory Proto_Error
  imports Host_Port Node
begin

text \<open>
  \<open>crates/remoter-proto/src/error.rs\<close>: the failures of the session pipeline and how they are
  classified (stage, suggested actions, whether an automatic retry may be made), with the
  kinds of credential of \<open>credentials.rs\<close>. The classification is what keeps the reconnect
  loop from retrying a host whose identity check failed.
\<close>

section \<open>Stages, actions and details\<close>

datatype stage =
    Resolve | Authorise | Acquire | Transport | Handshake | Authenticate | Attach | Run | Terminate

fun stage_as_str :: "stage \<Rightarrow> rstring" where
  "stage_as_str Resolve = lit ''resolve''"
| "stage_as_str Authorise = lit ''authorise''"
| "stage_as_str Acquire = lit ''acquire''"
| "stage_as_str Transport = lit ''transport''"
| "stage_as_str Handshake = lit ''handshake''"
| "stage_as_str Authenticate = lit ''authenticate''"
| "stage_as_str Attach = lit ''attach''"
| "stage_as_str Run = lit ''run''"
| "stage_as_str Terminate = lit ''terminate''"

datatype next_action =
    OpenSettings | EditGatewayChain | CheckAddress | CheckService | CheckFirewall | CheckNetwork
  | Retry | Reconnect | ChooseCredential | EnterCredential | ChooseAuthMethod | ReviewHostKey
  | VerifyFingerprintOutOfBand | PinCertificate | CloseAnotherSession | ContactAdministrator
  | ReportDefect

fun next_action_as_str :: "next_action \<Rightarrow> rstring" where
  "next_action_as_str OpenSettings = lit ''open-settings''"
| "next_action_as_str EditGatewayChain = lit ''edit-gateway-chain''"
| "next_action_as_str CheckAddress = lit ''check-address''"
| "next_action_as_str CheckService = lit ''check-service''"
| "next_action_as_str CheckFirewall = lit ''check-firewall''"
| "next_action_as_str CheckNetwork = lit ''check-network''"
| "next_action_as_str Retry = lit ''retry''"
| "next_action_as_str Reconnect = lit ''reconnect''"
| "next_action_as_str ChooseCredential = lit ''choose-credential''"
| "next_action_as_str EnterCredential = lit ''enter-credential''"
| "next_action_as_str ChooseAuthMethod = lit ''choose-auth-method''"
| "next_action_as_str ReviewHostKey = lit ''review-host-key''"
| "next_action_as_str VerifyFingerprintOutOfBand = lit ''verify-fingerprint-out-of-band''"
| "next_action_as_str PinCertificate = lit ''pin-certificate''"
| "next_action_as_str CloseAnotherSession = lit ''close-another-session''"
| "next_action_as_str ContactAdministrator = lit ''contact-administrator''"
| "next_action_as_str ReportDefect = lit ''report-defect''"

datatype algorithm_kind = KeyExchange | HostKey | Cipher | Mac | Compression

fun algorithm_kind_as_str :: "algorithm_kind \<Rightarrow> rstring" where
  "algorithm_kind_as_str KeyExchange = lit ''key exchange''"
| "algorithm_kind_as_str HostKey = lit ''host key''"
| "algorithm_kind_as_str Cipher = lit ''cipher''"
| "algorithm_kind_as_str Mac = lit ''MAC''"
| "algorithm_kind_as_str Compression = lit ''compression''"

datatype certificate_problem =
    SelfSigned | UntrustedRoot | Expired | NameMismatch | Revoked | Malformed | Changed

fun certificate_problem_as_str :: "certificate_problem \<Rightarrow> rstring" where
  "certificate_problem_as_str SelfSigned = lit ''self-signed''"
| "certificate_problem_as_str UntrustedRoot = lit ''untrusted root''"
| "certificate_problem_as_str Expired = lit ''expired''"
| "certificate_problem_as_str NameMismatch = lit ''name mismatch''"
| "certificate_problem_as_str Revoked = lit ''revoked''"
| "certificate_problem_as_str Malformed = lit ''malformed''"
| "certificate_problem_as_str Changed = lit ''changed''"

datatype credential_kind = PasswordKind | PrivateKeyKind | AgentKind | NoneKind

fun credential_kind_as_str :: "credential_kind \<Rightarrow> rstring" where
  "credential_kind_as_str PasswordKind = lit ''password''"
| "credential_kind_as_str PrivateKeyKind = lit ''private-key''"
| "credential_kind_as_str AgentKind = lit ''agent''"
| "credential_kind_as_str NoneKind = lit ''none''"

text \<open>
  A fingerprint is 32 bytes; a session id is a \<open>u64\<close>. Of an \<open>io::Error\<close> the code reads the
  kind and the text; the kinds it does not tell apart are one constructor.
\<close>

record fingerprint = fp_digest :: "u8 list"

type_synonym session_id = u64

datatype io_error_kind =
    IoConnectionRefused | IoTimedOut | IoNetworkUnreachable | IoHostUnreachable | IoNetworkDown
  | IoOther rstring

record io_error =
  io_kind :: io_error_kind
  io_text :: rstring

section \<open>The errors\<close>

datatype protocol_error =
    NoAddress
  | InvalidHost rstring
  | InvalidPort
  | GatewayCycle rstring nat nat
  | GatewayTooLong nat nat
  | GatewayHopDeleted rstring nat nat
  | SessionLimit nat nat
  | CredentialMissing rstring
  | CredentialPurposeMismatch "rstring list" protocol_id
  | CredentialRequired host_port
  | DnsFailure rstring
  | ConnectionRefused host_port
  | ConnectTimeout host_port u64
  | NetworkUnreachable host_port
  | HopFailed rstring nat nat protocol_error
  | Io rstring io_error
  | HostKeyUnknown host_port rstring fingerprint
  | HostKeyChanged host_port rstring fingerprint fingerprint
  | HostKeyRejected host_port rstring
  | MalformedFingerprint
  | ConfirmationMismatch
  | NoSharedAlgorithm algorithm_kind "rstring list"
  | CertificateUntrusted host_port certificate_problem
  | HandshakeFailed protocol_id rstring
  | AuthRejected credential_kind
  | AuthMethodUnavailable credential_kind "rstring list"
  | AuthCancelled
  | AgentUnavailable
  | SettingInvalid rstring rstring
  | SettingRequired rstring
  | Unsupported rstring protocol_id
  | PathNotFound
  | PathPermissionDenied
  | FileOperationRefused
  | Disconnected rstring
  | NetworkLost
  | ProtocolViolation rstring
  | Cancelled
  | SessionClosed
  | EventStreamClosed
  | TrustStoreFailed rstring rstring
  | Panicked session_id
  | ShutdownTimeout session_id u64
  | Internal rstring

definition host_port_new :: "rstring \<Rightarrow> u16 \<Rightarrow> (protocol_error, host_port) result" where
  "host_port_new host port =
     and_then (map_err (\<lambda>_. InvalidHost host) (validate_host host)) (\<lambda>_.
     and_then (map_err (\<lambda>_. InvalidPort) (validate_port port)) (\<lambda>_.
       Inr \<lparr>hp_host = host, hp_port = port\<rparr>))"

text \<open>The operating system's answer to a connect, in the pipeline's terms.\<close>

definition classify :: "host_port \<Rightarrow> io_error \<Rightarrow> protocol_error" where
  "classify target e =
     (case io_kind e of
        IoConnectionRefused \<Rightarrow> ConnectionRefused target
      | IoTimedOut \<Rightarrow> ConnectTimeout target 0
      | IoNetworkUnreachable \<Rightarrow> NetworkUnreachable target
      | IoHostUnreachable \<Rightarrow> NetworkUnreachable target
      | IoNetworkDown \<Rightarrow> NetworkUnreachable target
      | IoOther _ \<Rightarrow> Io (lit ''connect'') \<lparr>io_kind = io_kind e, io_text = io_text e\<rparr>)"

section \<open>Classification\<close>

fun root_cause :: "protocol_error \<Rightarrow> protocol_error" where
  "root_cause (HopFailed _ _ _ source) = root_cause source"
| "root_cause e = e"

fun is_identity_failure :: "protocol_error \<Rightarrow> bool" where
  "is_identity_failure (HostKeyUnknown _ _ _) = True"
| "is_identity_failure (HostKeyChanged _ _ _ _) = True"
| "is_identity_failure (HostKeyRejected _ _) = True"
| "is_identity_failure (CertificateUntrusted _ _) = True"
| "is_identity_failure _ = False"

definition involves_identity_failure :: "protocol_error \<Rightarrow> bool" where
  "involves_identity_failure e = is_identity_failure (root_cause e)"

definition error_stage :: "protocol_error \<Rightarrow> stage" where
  "error_stage e =
     (case root_cause e of
        NoAddress \<Rightarrow> Resolve
      | InvalidHost _ \<Rightarrow> Resolve
      | InvalidPort \<Rightarrow> Resolve
      | GatewayCycle _ _ _ \<Rightarrow> Resolve
      | GatewayTooLong _ _ \<Rightarrow> Resolve
      | GatewayHopDeleted _ _ _ \<Rightarrow> Resolve
      | SessionLimit _ _ \<Rightarrow> Authorise
      | CredentialMissing _ \<Rightarrow> Acquire
      | CredentialPurposeMismatch _ _ \<Rightarrow> Acquire
      | CredentialRequired _ \<Rightarrow> Acquire
      | DnsFailure _ \<Rightarrow> Transport
      | ConnectionRefused _ \<Rightarrow> Transport
      | ConnectTimeout _ _ \<Rightarrow> Transport
      | NetworkUnreachable _ \<Rightarrow> Transport
      | HopFailed _ _ _ _ \<Rightarrow> Transport
      | Io _ _ \<Rightarrow> Transport
      | HostKeyUnknown _ _ _ \<Rightarrow> Handshake
      | HostKeyChanged _ _ _ _ \<Rightarrow> Handshake
      | HostKeyRejected _ _ \<Rightarrow> Handshake
      | MalformedFingerprint \<Rightarrow> Handshake
      | ConfirmationMismatch \<Rightarrow> Handshake
      | NoSharedAlgorithm _ _ \<Rightarrow> Handshake
      | CertificateUntrusted _ _ \<Rightarrow> Handshake
      | HandshakeFailed _ _ \<Rightarrow> Handshake
      | TrustStoreFailed _ _ \<Rightarrow> Handshake
      | AuthRejected _ \<Rightarrow> Authenticate
      | AuthMethodUnavailable _ _ \<Rightarrow> Authenticate
      | AuthCancelled \<Rightarrow> Authenticate
      | AgentUnavailable \<Rightarrow> Authenticate
      | SettingInvalid _ _ \<Rightarrow> Attach
      | SettingRequired _ \<Rightarrow> Attach
      | Unsupported _ _ \<Rightarrow> Run
      | PathNotFound \<Rightarrow> Run
      | PathPermissionDenied \<Rightarrow> Run
      | FileOperationRefused \<Rightarrow> Run
      | Disconnected _ \<Rightarrow> Run
      | NetworkLost \<Rightarrow> Run
      | ProtocolViolation _ \<Rightarrow> Run
      | Cancelled \<Rightarrow> Run
      | SessionClosed \<Rightarrow> Run
      | EventStreamClosed \<Rightarrow> Run
      | Internal _ \<Rightarrow> Run
      | Panicked _ \<Rightarrow> Terminate
      | ShutdownTimeout _ _ \<Rightarrow> Terminate)"

fun next_actions :: "protocol_error \<Rightarrow> next_action list" where
  "next_actions (HopFailed _ _ _ source) =
     (if involves_identity_failure source then next_actions source
      else [EditGatewayChain, CheckNetwork, Retry])"
| "next_actions NoAddress = [OpenSettings]"
| "next_actions (InvalidHost _) = [OpenSettings]"
| "next_actions InvalidPort = [OpenSettings]"
| "next_actions (GatewayCycle _ _ _) = [EditGatewayChain, OpenSettings]"
| "next_actions (GatewayTooLong _ _) = [EditGatewayChain, OpenSettings]"
| "next_actions (GatewayHopDeleted _ _ _) = [EditGatewayChain, OpenSettings]"
| "next_actions (SessionLimit _ _) = [CloseAnotherSession, OpenSettings]"
| "next_actions (CredentialMissing _) = [ChooseCredential, EnterCredential]"
| "next_actions (CredentialPurposeMismatch _ _) = [ChooseCredential, OpenSettings]"
| "next_actions (CredentialRequired _) = [EnterCredential, ChooseCredential]"
| "next_actions (DnsFailure _) = [CheckAddress, OpenSettings]"
| "next_actions (ConnectionRefused _) = [CheckService, OpenSettings, Retry]"
| "next_actions (ConnectTimeout _ _) = [CheckFirewall, CheckAddress, Retry]"
| "next_actions (NetworkUnreachable _) = [CheckNetwork, Retry]"
| "next_actions NetworkLost = [CheckNetwork, Retry]"
| "next_actions (Io _ _) = [Retry, CheckNetwork]"
| "next_actions (HostKeyUnknown _ _ _) = [ReviewHostKey]"
| "next_actions (HostKeyChanged _ _ _ _) = [VerifyFingerprintOutOfBand, ContactAdministrator]"
| "next_actions (HostKeyRejected _ _) = [ReviewHostKey]"
| "next_actions MalformedFingerprint = [ReviewHostKey]"
| "next_actions ConfirmationMismatch = [ReviewHostKey]"
| "next_actions (NoSharedAlgorithm _ _) = [ContactAdministrator]"
| "next_actions (CertificateUntrusted _ _) = [PinCertificate, ContactAdministrator]"
| "next_actions (HandshakeFailed _ _) = [Retry, ContactAdministrator]"
| "next_actions (TrustStoreFailed _ _) = [Retry, ReportDefect]"
| "next_actions (AuthRejected _) = [EnterCredential, ChooseCredential]"
| "next_actions (AuthMethodUnavailable _ _) = [ChooseAuthMethod, ChooseCredential]"
| "next_actions AuthCancelled = [Retry]"
| "next_actions AgentUnavailable = [ChooseCredential, ChooseAuthMethod]"
| "next_actions (SettingInvalid _ _) = [OpenSettings]"
| "next_actions (SettingRequired _) = [OpenSettings]"
| "next_actions (Unsupported _ _) = []"
| "next_actions PathNotFound = [Retry]"
| "next_actions PathPermissionDenied = [ContactAdministrator]"
| "next_actions FileOperationRefused = [Retry, ContactAdministrator]"
| "next_actions (Disconnected _) = [Reconnect]"
| "next_actions (ProtocolViolation _) = [Reconnect, ReportDefect]"
| "next_actions Cancelled = []"
| "next_actions SessionClosed = []"
| "next_actions EventStreamClosed = [ReportDefect]"
| "next_actions (Internal _) = [ReportDefect]"
| "next_actions (Panicked _) = [Reconnect, ReportDefect]"
| "next_actions (ShutdownTimeout _ _) = [ReportDefect]"

function is_retryable :: "protocol_error \<Rightarrow> bool" where
  "is_retryable e =
     (if involves_identity_failure e then False
      else
        (case e of
           HopFailed _ _ _ source \<Rightarrow> is_retryable source
         | ConnectionRefused _ \<Rightarrow> True
         | ConnectTimeout _ _ \<Rightarrow> True
         | NetworkUnreachable _ \<Rightarrow> True
         | NetworkLost \<Rightarrow> True
         | DnsFailure _ \<Rightarrow> True
         | Io _ _ \<Rightarrow> True
         | Disconnected _ \<Rightarrow> True
         | _ \<Rightarrow> False))"
  by pat_completeness auto
termination
  by (relation "measure size") auto

declare is_retryable.simps [simp del]

definition needs_user_decision :: "protocol_error \<Rightarrow> bool" where
  "needs_user_decision e =
     (case root_cause e of
        HostKeyUnknown _ _ _ \<Rightarrow> True
      | HostKeyChanged _ _ _ _ \<Rightarrow> True
      | CertificateUntrusted _ _ \<Rightarrow> True
      | CredentialRequired _ \<Rightarrow> True
      | AuthRejected _ \<Rightarrow> True
      | _ \<Rightarrow> False)"

definition at_hop :: "protocol_error \<Rightarrow> rstring \<Rightarrow> nat \<Rightarrow> nat \<Rightarrow> protocol_error" where
  "at_hop e label position hops = HopFailed label position hops e"

text \<open>
  The report a failed tab shows. The sentence is what the derived \<open>Display\<close> of the error
  prints, which is generated code: an argument.
\<close>

record failure_report =
  fr_stage :: stage
  fr_message :: rstring
  fr_next_actions :: "next_action list"
  fr_retryable :: bool

definition failure_report_from :: "(protocol_error \<Rightarrow> rstring) \<Rightarrow> protocol_error \<Rightarrow> failure_report" where
  "failure_report_from to_string e =
     \<lparr>fr_stage = error_stage e, fr_message = to_string e, fr_next_actions = next_actions e,
      fr_retryable = is_retryable e\<rparr>"

section \<open>Wrapping does not change the verdict\<close>

lemma root_cause_not_hop: "root_cause e \<noteq> HopFailed l p n source"
  by (induction e) auto

lemma root_cause_idem [simp]: "root_cause (root_cause e) = root_cause e"
  by (induction e) auto

lemma root_cause_at_hop [simp]: "root_cause (at_hop e l p n) = root_cause e"
  by (simp add: at_hop_def)

lemma involves_at_hop [simp]: "involves_identity_failure (at_hop e l p n) = involves_identity_failure e"
  by (simp add: involves_identity_failure_def)

text \<open>The connectivity failures, the only ones a machine may retry.\<close>

definition connectivity_failure :: "protocol_error \<Rightarrow> bool" where
  "connectivity_failure e =
     (case e of
        ConnectionRefused _ \<Rightarrow> True | ConnectTimeout _ _ \<Rightarrow> True | NetworkUnreachable _ \<Rightarrow> True
      | NetworkLost \<Rightarrow> True | DnsFailure _ \<Rightarrow> True | Io _ _ \<Rightarrow> True | Disconnected _ \<Rightarrow> True
      | _ \<Rightarrow> False)"

lemma identity_not_connectivity: "is_identity_failure e \<Longrightarrow> \<not> connectivity_failure e"
  by (cases e) (simp_all add: connectivity_failure_def)

lemma is_retryable_root: "is_retryable e \<longleftrightarrow> connectivity_failure (root_cause e)"
proof (induction e)
  case (HopFailed l p n source)
  then show ?case
    by (subst is_retryable.simps)
      (simp add: involves_identity_failure_def identity_not_connectivity)
qed (subst is_retryable.simps, simp add: involves_identity_failure_def connectivity_failure_def)+

lemma next_actions_identity:
  "involves_identity_failure e \<Longrightarrow> next_actions e = next_actions (root_cause e)"
  by (induction e) (auto simp: involves_identity_failure_def)

lemma identity_stage: "is_identity_failure (root_cause e) \<Longrightarrow> error_stage e = Handshake"
  by (auto simp: error_stage_def split: protocol_error.splits)

lemma identity_actions:
  "is_identity_failure e \<Longrightarrow> Retry \<notin> set (next_actions e) \<and> Reconnect \<notin> set (next_actions e)"
  by (cases e) simp_all


text \<open>An error as a chain of gateways reports it: one label per hop, the outermost first.\<close>

definition wrap_hops :: "(rstring \<times> nat \<times> nat) list \<Rightarrow> protocol_error \<Rightarrow> protocol_error" where
  "wrap_hops labels e = foldr (\<lambda>(label, position, hops) e. at_hop e label position hops) labels e"

lemma root_cause_wrap_hops [simp]: "root_cause (wrap_hops labels e) = root_cause e"
  by (induction labels) (auto simp: wrap_hops_def)

text \<open>
  C25. However many gateway hops wrap it, an error keeps its stage, its retry verdict and
  whether a person must decide. In particular a failed identity check (an unknown, changed or
  rejected host key, an untrusted certificate) at any hop is a handshake failure that is never
  retried automatically, offers neither \<open>Retry\<close> nor \<open>Reconnect\<close>, and offers exactly the
  actions of the unwrapped failure; and what is retried is a connectivity failure.
\<close>

theorem identity_failure_never_retried:
  "error_stage (wrap_hops labels e) = error_stage e
    \<and> is_retryable (wrap_hops labels e) = is_retryable e
    \<and> needs_user_decision (wrap_hops labels e) = needs_user_decision e
    \<and> (is_retryable e \<longleftrightarrow> connectivity_failure (root_cause e))
    \<and> (involves_identity_failure e \<longrightarrow>
        \<not> is_retryable (wrap_hops labels e)
        \<and> error_stage (wrap_hops labels e) = Handshake
        \<and> next_actions (wrap_hops labels e) = next_actions (root_cause e)
        \<and> Retry \<notin> set (next_actions (wrap_hops labels e))
        \<and> Reconnect \<notin> set (next_actions (wrap_hops labels e)))"
proof -
  have verdict: "error_stage (wrap_hops labels e) = error_stage e"
    "is_retryable (wrap_hops labels e) = is_retryable e"
    "needs_user_decision (wrap_hops labels e) = needs_user_decision e"
    by (simp_all add: error_stage_def is_retryable_root needs_user_decision_def)
  have "next_actions (wrap_hops labels e) = next_actions (root_cause e)" if "involves_identity_failure e"
    using that next_actions_identity [of "wrap_hops labels e"] by (simp add: involves_identity_failure_def)
  with verdict show ?thesis
    using identity_actions [of "root_cause e"] identity_not_connectivity [of "root_cause e"] identity_stage [of e]
    by (auto simp: is_retryable_root involves_identity_failure_def)
qed

definition sample_endpoint :: host_port where
  "sample_endpoint = \<lparr>hp_host = lit ''bastion-2'', hp_port = 22\<rparr>"

definition changed_key :: protocol_error where
  "changed_key = HostKeyChanged sample_endpoint (lit ''ssh-ed25519'')
     \<lparr>fp_digest = replicate 32 1\<rparr> \<lparr>fp_digest = replicate 32 2\<rparr>"

theorem identity_failure_never_retried_witness:
  "involves_identity_failure changed_key
    \<and> \<not> is_retryable (wrap_hops [(lit ''bastion-1'', 1, 2), (lit ''bastion-2'', 2, 2)] changed_key)
    \<and> next_actions (wrap_hops [(lit ''bastion-1'', 1, 2), (lit ''bastion-2'', 2, 2)] changed_key)
        = [VerifyFingerprintOutOfBand, ContactAdministrator]"
proof -
  have h: "involves_identity_failure changed_key"
    and a: "next_actions (root_cause changed_key) = [VerifyFingerprintOutOfBand, ContactAdministrator]"
    by (simp_all add: changed_key_def involves_identity_failure_def)
  show ?thesis
    using identity_failure_never_retried [of "[(lit ''bastion-1'', 1, 2), (lit ''bastion-2'', 2, 2)]" changed_key]
    unfolding a using h by blast
qed

text \<open>The only failures with nothing to suggest.\<close>

lemma no_action_iff:
  "next_actions e = [] \<longleftrightarrow>
     (case e of Unsupported _ _ \<Rightarrow> True | Cancelled \<Rightarrow> True | SessionClosed \<Rightarrow> True | _ \<Rightarrow> False)"
proof (cases "\<exists>l p n source. e = HopFailed l p n source")
  case True
  then obtain l p n source where e: "e = HopFailed l p n source" by blast
  have "next_actions source \<noteq> []" if h: "involves_identity_failure source"
    unfolding next_actions_identity [OF h]
    using h by (cases "root_cause source") (simp_all add: involves_identity_failure_def)
  with e show ?thesis by simp
next
  case False
  then show ?thesis by (cases e) auto
qed

end
