(* ===== verification/Events.thy ===== *)
theory Events
  imports Proto_Error
begin

text \<open>
  What a session tells the layer above it: the event types of
  \<open>crates/remoter-proto/src/event.rs\<close> with the clipboard types of \<open>protocol.rs\<close> they carry,
  and the answer to a prompt.
\<close>

type_synonym prompt_id = u64

record trusted_host_key =
  thk_fingerprint :: rstring
  thk_randomart :: rstring
  thk_first_trusted_at_ms :: i64

text \<open>The host key question carries host, algorithm, fingerprint, picture and the key already trusted.\<close>

datatype prompt_kind =
    Password
  | KeyPassphrase
  | KeyboardInteractive rstring
  | HostKeyPrompt rstring rstring rstring rstring "trusted_host_key option"
  | Certificate rstring rstring

fun is_changed_host_key :: "prompt_kind \<Rightarrow> bool" where
  "is_changed_host_key (HostKeyPrompt _ _ _ _ (Some _)) = True"
| "is_changed_host_key _ = False"

record prompt =
  pr_id :: prompt_id
  pr_kind :: prompt_kind
  pr_text :: rstring
  pr_echo :: bool

record prompt_answer =
  pa_id :: prompt_id
  pa_secret :: "u8 list"
  pa_cancelled :: bool

definition prompt_answer_new :: "prompt_id \<Rightarrow> u8 list \<Rightarrow> prompt_answer" where
  "prompt_answer_new i secret = \<lparr>pa_id = i, pa_secret = secret, pa_cancelled = False\<rparr>"

definition prompt_answer_cancelled :: "prompt_id \<Rightarrow> prompt_answer" where
  "prompt_answer_cancelled i = \<lparr>pa_id = i, pa_secret = [], pa_cancelled = True\<rparr>"

definition with_secret :: "(u8 list \<Rightarrow> 'r) \<Rightarrow> prompt_answer \<Rightarrow> 'r option" where
  "with_secret f a = (if pa_cancelled a then None else Some (f (pa_secret a)))"

record progress_update =
  pu_operation :: rstring
  pu_done :: u64
  pu_total :: "u64 option"
  pu_detail :: "rstring option"

datatype session_warning =
    UnencryptedTransport rstring
  | WeakAlgorithm rstring
  | RecordingStarted
  | OutputThrottled
  | Banner rstring
  | OtherWarning rstring

datatype close_reason =
    CloseDisconnected
  | ClosedByUser
  | ApplicationExit
  | CloseFailed failure_report
  | ClosePanicked
  | CloseAborted

record clipboard_formats =
  cf_text :: bool
  cf_files :: bool

datatype clipboard_data = ClipboardText rstring | ClipboardFileNames "rstring list"

record remote_file =
  rf_path :: rstring
  rf_size :: "u64 option"
  rf_directory :: bool

datatype clipboard_files =
    FilesOffered "remote_file list" u32 u64
  | FilesWithdrawn
  | FilesSaving u64 u64 u32 u32
  | FilesSaved rstring rstring u64
  | FilesFinished rstring u32 u64
  | FilesFailed rstring
  | FilesCancelled
  | FilesSent rstring u64

datatype session_event =
    Data "u8 list"
  | Resized u16 u16
  | ClipboardOffer clipboard_formats
  | ClipboardContent clipboard_data
  | ClipboardFiles clipboard_files
  | Prompt prompt
  | Progress progress_update
  | Warning session_warning
  | Closed close_reason

end
