(* ===== verification/Coalesce.thy ===== *)
theory Coalesce
  imports Machine Events
begin

text \<open>
  \<open>crates/remoter-proto/src/coalesce.rs\<close> and the sink of \<open>event.rs\<close> that drives it:
  terminal output is buffered and sent as one frame per interval or per \<open>max_bytes\<close>. The
  clock and the channel are outside the repository's code: a clock reading is an argument of
  every call, and whether the channel's consumer is still there is a function of how many
  events it was sent.
\<close>

section \<open>The coalescer\<close>

text \<open>Durations and instants in nanoseconds; \<open>duration_since\<close> saturates at zero.\<close>

type_synonym duration = nat
type_synonym instant = nat

definition duration_since :: "instant \<Rightarrow> instant \<Rightarrow> duration" where
  "duration_since now earlier = now - earlier"

definition DEFAULT_FRAME_INTERVAL :: duration where
  "DEFAULT_FRAME_INTERVAL = 16 * 1000000"

definition DEFAULT_MAX_FRAME_BYTES :: nat where
  "DEFAULT_MAX_FRAME_BYTES = 128 * 1024"

record output_coalescer =
  co_buffer :: "u8 list"
  co_interval :: duration
  co_max_bytes :: nat
  co_opened_at :: "instant option"

definition coalescer_new :: "duration \<Rightarrow> nat \<Rightarrow> output_coalescer" where
  "coalescer_new interval max_bytes =
     \<lparr>co_buffer = [], co_interval = interval, co_max_bytes = max max_bytes 1, co_opened_at = None\<rparr>"

definition coalescer_default :: output_coalescer where
  "coalescer_default = coalescer_new DEFAULT_FRAME_INTERVAL DEFAULT_MAX_FRAME_BYTES"

definition coalescer_flush :: "output_coalescer \<Rightarrow> u8 list option \<times> output_coalescer" where
  "coalescer_flush c =
     (if co_buffer c = [] then (None, c)
      else (Some (co_buffer c), c\<lparr>co_opened_at := None, co_buffer := []\<rparr>))"

definition coalescer_push ::
  "u8 list \<Rightarrow> instant \<Rightarrow> output_coalescer \<Rightarrow> (u8 list option \<times> u8 list) \<times> output_coalescer" where
  "coalescer_push bytes now c =
     (if bytes = [] then ((None, []), c)
      else
        let opened_at = (case co_opened_at c of None \<Rightarrow> now | Some o' \<Rightarrow> o');
            room = co_max_bytes c - length (co_buffer c);
            taken = min room (length bytes);
            head = take taken bytes;
            rest = drop taken bytes;
            c1 = c\<lparr>co_opened_at := Some opened_at, co_buffer := co_buffer c @ head\<rparr>;
            full = length (co_buffer c1) \<ge> co_max_bytes c1;
            due = duration_since now opened_at \<ge> co_interval c1
        in if full \<or> due
           then (case coalescer_flush c1 of (frame, c2) \<Rightarrow> ((frame, rest), c2))
           else ((None, rest), c1))"

definition coalescer_pending :: "output_coalescer \<Rightarrow> nat" where
  "coalescer_pending c = length (co_buffer c)"

definition coalescer_time_to_deadline :: "instant \<Rightarrow> output_coalescer \<Rightarrow> duration option" where
  "coalescer_time_to_deadline now c =
     map_option (\<lambda>opened. co_interval c - duration_since now opened) (co_opened_at c)"

section \<open>The event sink\<close>

text \<open>
  The sink with the events it has sent. \<open>accepts k\<close> says whether the channel takes the event
  when \<open>k\<close> were taken before; a clock reading is drawn for every \<open>push\<close>.
\<close>

record event_sink =
  sk_coalescer :: output_coalescer
  sk_interval :: duration
  sk_sent :: "session_event list"

definition sink_new :: "duration \<Rightarrow> nat \<Rightarrow> event_sink" where
  "sink_new interval max_frame_bytes =
     \<lparr>sk_coalescer = coalescer_new interval max_frame_bytes, sk_interval = interval, sk_sent = []\<rparr>"

definition sink_emit ::
  "(nat \<Rightarrow> bool) \<Rightarrow> session_event \<Rightarrow> event_sink \<Rightarrow> (protocol_error, unit) result \<times> event_sink" where
  "sink_emit accepts event s =
     (if accepts (length (sk_sent s)) then (Inr (), s\<lparr>sk_sent := sk_sent s @ [event]\<rparr>)
      else (Inl EventStreamClosed, s))"

definition emit_frame ::
  "(nat \<Rightarrow> bool) \<Rightarrow> u8 list option \<Rightarrow> event_sink \<Rightarrow> (protocol_error, unit) result \<times> event_sink" where
  "emit_frame accepts frame s =
     (case frame of None \<Rightarrow> (Inr (), s) | Some f \<Rightarrow> sink_emit accepts (Data f) s)"

function sink_data ::
  "(nat \<Rightarrow> bool) \<Rightarrow> (nat \<Rightarrow> instant) \<Rightarrow> u8 list \<Rightarrow> event_sink
    \<Rightarrow> (protocol_error, unit) result \<times> event_sink" where
  "sink_data accepts now bytes s =
     (case coalescer_push bytes (now 0) (sk_coalescer s) of
        ((frame, remainder), c) \<Rightarrow>
          (case emit_frame accepts frame (s\<lparr>sk_coalescer := c\<rparr>) of
             (Inl e, s') \<Rightarrow> (Inl e, s')
           | (Inr _, s') \<Rightarrow>
               if remainder = [] then (Inr (), s')
               else if length remainder \<ge> length bytes then (Inl (Internal (lit ''the output coalescer accepted no bytes'')), s')
               else sink_data accepts (\<lambda>k. now (Suc k)) remainder s'))"
  by pat_completeness auto
termination
  by (relation "measure (\<lambda>(accepts, now, bytes, s). length bytes)") auto

declare sink_data.simps [simp del]

definition sink_flush ::
  "(nat \<Rightarrow> bool) \<Rightarrow> event_sink \<Rightarrow> (protocol_error, unit) result \<times> event_sink" where
  "sink_flush accepts s =
     (case coalescer_flush (sk_coalescer s) of
        (frame, c) \<Rightarrow> emit_frame accepts frame (s\<lparr>sk_coalescer := c\<rparr>))"

definition sink_send ::
  "(nat \<Rightarrow> bool) \<Rightarrow> session_event \<Rightarrow> event_sink \<Rightarrow> (protocol_error, unit) result \<times> event_sink" where
  "sink_send accepts event s =
     (case sink_flush accepts s of
        (Inl e, s') \<Rightarrow> (Inl e, s')
      | (Inr _, s') \<Rightarrow> sink_emit accepts event s')"

definition frame_deadline :: "instant \<Rightarrow> event_sink \<Rightarrow> duration option" where
  "frame_deadline now s = coalescer_time_to_deadline now (sk_coalescer s)"

end
