(* ===== verification/Sink_Props.thy ===== *)
theory Sink_Props
  imports Coalesce "HOL-Library.Sublist"
begin

text \<open>
  What the sink promises: nothing written is lost, duplicated or reordered, no frame and no
  buffer exceeds the ceiling, a control event never overtakes output, and a write always ends.
\<close>

section \<open>The coalescer\<close>

text \<open>The buffer is below the ceiling, and a batch has an opening time exactly when it holds bytes.\<close>

definition coalescer_ok :: "output_coalescer \<Rightarrow> bool" where
  "coalescer_ok c \<longleftrightarrow>
     length (co_buffer c) < co_max_bytes c \<and> (co_opened_at c = None \<longleftrightarrow> co_buffer c = [])"

definition frame_bytes :: "u8 list option \<Rightarrow> u8 list" where
  "frame_bytes frame = (case frame of None \<Rightarrow> [] | Some f \<Rightarrow> f)"

lemma frame_bytes_simps [simp]: "frame_bytes None = []" "frame_bytes (Some f) = f"
  by (simp_all add: frame_bytes_def)

lemma coalescer_new_ok [simp]: "coalescer_ok (coalescer_new i m)"
  by (simp add: coalescer_ok_def coalescer_new_def)

definition frame_ok :: "nat \<Rightarrow> u8 list option \<Rightarrow> bool" where
  "frame_ok m frame \<longleftrightarrow> (case frame of None \<Rightarrow> True | Some f \<Rightarrow> f \<noteq> [] \<and> length f \<le> m)"

lemma coalescer_flush_spec:
  assumes "coalescer_ok c" and "coalescer_flush c = (frame, c')"
  shows "coalescer_ok c'" and "co_max_bytes c' = co_max_bytes c" and "co_buffer c' = []"
    and "frame_bytes frame = co_buffer c" and "frame_ok (co_max_bytes c) frame"
  using assms by (auto simp: coalescer_flush_def coalescer_ok_def frame_ok_def split: if_splits)

lemma coalescer_push_spec:
  assumes "coalescer_ok c" and "coalescer_push bytes now c = ((frame, rest), c')"
  shows "coalescer_ok c'" and "co_max_bytes c' = co_max_bytes c"
    and "frame_bytes frame @ co_buffer c' @ rest = co_buffer c @ bytes"
    and "frame_ok (co_max_bytes c) frame"
    and "rest \<noteq> [] \<Longrightarrow> length rest < length bytes \<and> co_buffer c' = []"
proof -
  define room where "room = co_max_bytes c - length (co_buffer c)"
  have room: "0 < room" "length (co_buffer c) + room = co_max_bytes c"
    using assms(1) by (auto simp: room_def coalescer_ok_def)
  have parts: "coalescer_ok c' \<and> co_max_bytes c' = co_max_bytes c
      \<and> frame_bytes frame @ co_buffer c' @ rest = co_buffer c @ bytes
      \<and> frame_ok (co_max_bytes c) frame
      \<and> (rest \<noteq> [] \<longrightarrow> length rest < length bytes \<and> co_buffer c' = [])"
  proof (cases "bytes = []")
    case True
    with assms show ?thesis by (auto simp: coalescer_push_def frame_ok_def)
  next
    case False
    let ?head = "take room bytes"
    have head: "take (min room (length bytes)) bytes = ?head" "drop (min room (length bytes)) bytes = drop room bytes"
      by (simp_all add: min_def)
    have full: "length (co_buffer c) + min (length bytes) room \<ge> co_max_bytes c \<longleftrightarrow> room \<le> length bytes"
      using room by auto
    have pos: "0 < co_max_bytes c" using room by linarith
    from False room(1) have "?head \<noteq> []" by simp
    with False pos assms room full head show ?thesis
      by (cases "room \<le> length bytes")
        (auto simp: coalescer_push_def coalescer_flush_def coalescer_ok_def frame_ok_def Let_def
          room_def [symmetric] min_def split: if_splits, use pos in \<open>simp_all\<close>)
  qed
  then show "coalescer_ok c'" "co_max_bytes c' = co_max_bytes c"
    "frame_bytes frame @ co_buffer c' @ rest = co_buffer c @ bytes"
    "frame_ok (co_max_bytes c) frame"
    "rest \<noteq> [] \<Longrightarrow> length rest < length bytes \<and> co_buffer c' = []" by blast+
qed


section \<open>The sink\<close>

text \<open>
  A stream as the consumer reads it: single output bytes and control events, in order. What
  the sink holds is what it sent followed by what it still buffers.
\<close>

type_synonym token = "u8 + session_event"

fun event_tokens :: "session_event \<Rightarrow> token list" where
  "event_tokens (Data bytes) = map Inl bytes"
| "event_tokens e = [Inr e]"

definition sent_tokens :: "event_sink \<Rightarrow> token list" where
  "sent_tokens s = concat (map event_tokens (sk_sent s))"

definition stream :: "event_sink \<Rightarrow> token list" where
  "stream s = sent_tokens s @ map Inl (co_buffer (sk_coalescer s))"

abbreviation closed :: "(nat \<Rightarrow> bool) \<Rightarrow> event_sink \<Rightarrow> bool" where
  "closed accepts s \<equiv> \<not> accepts (length (sk_sent s))"

text \<open>
  The outcome every operation of the sink has: it succeeded and the stream grew by what it
  was given, or the consumer was gone and what had been sent is still a prefix of that.
\<close>

definition sink_outcome ::
  "(nat \<Rightarrow> bool) \<Rightarrow> token list \<Rightarrow> event_sink \<Rightarrow> (protocol_error, unit) result \<Rightarrow> event_sink \<Rightarrow> bool" where
  "sink_outcome accepts input s r s' \<longleftrightarrow>
     r = Inr () \<and> stream s' = stream s @ input
   \<or> r = Inl EventStreamClosed \<and> closed accepts s' \<and> prefix (sent_tokens s') (stream s @ input)"

lemma emit_frame_spec:
  assumes "emit_frame accepts frame s = (r, s')"
  shows "sk_coalescer s' = sk_coalescer s"
    and "r = Inr () \<and> sent_tokens s' = sent_tokens s @ map Inl (frame_bytes frame)
       \<or> r = Inl EventStreamClosed \<and> closed accepts s' \<and> sent_tokens s' = sent_tokens s"
    and "sk_sent s' = sk_sent s \<or> (\<exists>f. frame = Some f \<and> sk_sent s' = sk_sent s @ [Data f])"
    and "closed accepts s \<Longrightarrow> sk_sent s' = sk_sent s"
  using assms
  by (auto simp: emit_frame_def sink_emit_def sent_tokens_def split: option.splits if_splits)

text \<open>What is appended to the sent events: frames of one byte up to the ceiling.\<close>

definition grew_by_frames :: "nat \<Rightarrow> event_sink \<Rightarrow> event_sink \<Rightarrow> bool" where
  "grew_by_frames m s s' \<longleftrightarrow>
     (\<exists>frames. sk_sent s' = sk_sent s @ map Data frames \<and> (\<forall>f\<in>set frames. f \<noteq> [] \<and> length f \<le> m))"

lemma grew_by_frames_refl [simp]: "sk_sent s' = sk_sent s \<Longrightarrow> grew_by_frames m s s'"
  by (auto simp: grew_by_frames_def intro: exI [where x = "[]"])

lemma grew_by_frames_trans: "grew_by_frames m s s' \<Longrightarrow> grew_by_frames m s' s'' \<Longrightarrow> grew_by_frames m s s''"
  unfolding grew_by_frames_def
  by (elim exE conjE) (rule_tac x = "frames @ framesa" in exI, auto)

lemma emit_frame_grew:
  assumes "emit_frame accepts frame s = (r, s')" and "frame_ok m frame"
  shows "grew_by_frames m s s'"
  using emit_frame_spec(3) [OF assms(1)] assms(2)
  by (auto simp: grew_by_frames_def frame_ok_def intro: exI [where x = "[_]"])

lemma sink_data_spec:
  assumes "coalescer_ok (sk_coalescer s)" and "sink_data accepts now bytes s = (r, s')"
  shows "coalescer_ok (sk_coalescer s') \<and> co_max_bytes (sk_coalescer s') = co_max_bytes (sk_coalescer s)
    \<and> sink_outcome accepts (map Inl bytes) s r s'
    \<and> grew_by_frames (co_max_bytes (sk_coalescer s)) s s'
    \<and> (closed accepts s \<longrightarrow> sk_sent s' = sk_sent s)"
  using assms
proof (induction accepts now bytes s arbitrary: r s' rule: sink_data.induct)
  case (1 accepts now bytes s)
  obtain frame rest c where push: "coalescer_push bytes (now 0) (sk_coalescer s) = ((frame, rest), c)"
    by (metis prod.exhaust)
  note p = coalescer_push_spec [OF "1.prems"(1) push]
  obtain r1 s1 where em: "emit_frame accepts frame (s\<lparr>sk_coalescer := c\<rparr>) = (r1, s1)" by fastforce
  note e = emit_frame_spec [OF em]
  have grew: "grew_by_frames (co_max_bytes (sk_coalescer s)) s s1"
    using emit_frame_grew [OF em p(4)] by (simp add: grew_by_frames_def)
  have c1: "sk_coalescer s1 = c" using e(1) by simp
  have gone: "closed accepts s \<Longrightarrow> sk_sent s1 = sk_sent s" using e(4) by simp
  have bytes: "map Inl (frame_bytes frame) @ map Inl (co_buffer c) @ map Inl rest
      = map Inl (co_buffer (sk_coalescer s)) @ (map Inl bytes :: token list)"
    using p(3) by (metis map_append)
  have st: "sent_tokens (s\<lparr>sk_coalescer := c\<rparr>) = sent_tokens s" by (simp add: sent_tokens_def)
  show ?case
  proof (cases r1)
    case (Inl err)
    then have rs: "r = Inl err" "s' = s1" using "1.prems"(2) push em by (simp_all add: sink_data.simps)
    have "sink_outcome accepts (map Inl bytes) s r s'"
      using e(2) Inl rs st by (auto simp: sink_outcome_def stream_def)
    with p grew rs c1 gone show ?thesis by simp
  next
    case (Inr u)
    have sent: "sent_tokens s1 = sent_tokens s @ map Inl (frame_bytes frame)"
      using e(2) Inr st by auto
    have whole: "stream s1 @ map Inl rest = stream s @ map Inl bytes"
      by (simp add: stream_def sent c1 bytes)
    show ?thesis
    proof (cases "rest = []")
      case True
      then have rs: "r = Inr ()" "s' = s1" using "1.prems"(2) push em Inr by (simp_all add: sink_data.simps)
      with True whole p grew c1 gone show ?thesis by (simp add: sink_outcome_def)
    next
      case False
      have shorter: "\<not> length bytes \<le> length rest" using p(5) [OF False] by simp
      then have rec: "sink_data accepts (\<lambda>k. now (Suc k)) rest s1 = (r, s')"
        using "1.prems"(2) push em Inr False by (subst (asm) sink_data.simps) simp
      have ok1: "coalescer_ok (sk_coalescer s1)" using p(1) c1 by simp
      note IH = "1.IH" [OF push [symmetric] refl em [symmetric] Inr False shorter ok1 rec]
      have "sink_outcome accepts (map Inl bytes) s r s'"
        using IH whole by (auto simp: sink_outcome_def)
      with IH grew p(2) c1 gone show ?thesis by (auto intro: grew_by_frames_trans)
    qed
  qed
qed


lemma sink_flush_spec:
  assumes "coalescer_ok (sk_coalescer s)" and "sink_flush accepts s = (r, s')"
  shows "coalescer_ok (sk_coalescer s') \<and> co_max_bytes (sk_coalescer s') = co_max_bytes (sk_coalescer s)
    \<and> co_buffer (sk_coalescer s') = []
    \<and> sink_outcome accepts [] s r s'
    \<and> grew_by_frames (co_max_bytes (sk_coalescer s)) s s'
    \<and> (closed accepts s \<longrightarrow> sk_sent s' = sk_sent s)"
proof -
  obtain frame c where fl: "coalescer_flush (sk_coalescer s) = (frame, c)" by fastforce
  note f = coalescer_flush_spec [OF assms(1) fl]
  have em: "emit_frame accepts frame (s\<lparr>sk_coalescer := c\<rparr>) = (r, s')"
    using assms(2) fl by (simp add: sink_flush_def)
  note e = emit_frame_spec [OF em]
  have "sink_outcome accepts [] s r s'"
    using e(1,2) f(3,4) by (auto simp: sink_outcome_def stream_def sent_tokens_def)
  moreover have "grew_by_frames (co_max_bytes (sk_coalescer s)) s s'"
    using emit_frame_grew [OF em f(5)] by (simp add: grew_by_frames_def)
  ultimately show ?thesis using e(1,4) f by simp
qed

lemma sink_send_spec:
  assumes "coalescer_ok (sk_coalescer s)" and "sink_send accepts event s = (r, s')"
  shows "coalescer_ok (sk_coalescer s') \<and> co_max_bytes (sk_coalescer s') = co_max_bytes (sk_coalescer s)
    \<and> sink_outcome accepts (event_tokens event) s r s'
    \<and> (\<exists>s1. grew_by_frames (co_max_bytes (sk_coalescer s)) s s1
          \<and> (sk_sent s' = sk_sent s1 \<or> sk_sent s' = sk_sent s1 @ [event]))
    \<and> (closed accepts s \<longrightarrow> sk_sent s' = sk_sent s)"
proof -
  obtain r1 s1 where fl: "sink_flush accepts s = (r1, s1)" by fastforce
  note f = sink_flush_spec [OF assms(1) fl]
  show ?thesis
  proof (cases r1)
    case (Inl e)
    then have rs: "r = Inl e" "s' = s1" using assms(2) fl by (simp_all add: sink_send_def)
    have "sink_outcome accepts (event_tokens event) s r s'"
      using f Inl rs by (auto simp: sink_outcome_def)
    with f rs show ?thesis by blast
  next
    case (Inr u)
    then have em: "sink_emit accepts event s1 = (r, s')" using assms(2) fl by (simp add: sink_send_def)
    have c: "sk_coalescer s' = sk_coalescer s1"
      using em by (auto simp: sink_emit_def split: if_splits)
    have "stream s1 = stream s" using f Inr by (auto simp: sink_outcome_def)
    then have "sink_outcome accepts (event_tokens event) s r s'"
      using em f c by (auto simp: sink_emit_def sink_outcome_def stream_def sent_tokens_def split: if_splits)
    moreover have "sk_sent s' = sk_sent s1 \<or> sk_sent s' = sk_sent s1 @ [event]"
      using em by (auto simp: sink_emit_def split: if_splits)
    moreover have "closed accepts s \<longrightarrow> sk_sent s' = sk_sent s"
      using em f by (auto simp: sink_emit_def split: if_splits)
    ultimately show ?thesis using f c by auto
  qed
qed

section \<open>Sequences of calls\<close>

text \<open>
  The calls a session makes, in the order the coalescer's lock serialises them; a write
  brings the clock readings it will draw. The machine's state carries the calls made so far.
\<close>

datatype sink_op = OpData "u8 list" "nat \<Rightarrow> instant" | OpFlush | OpSend session_event

fun op_tokens :: "sink_op \<Rightarrow> token list" where
  "op_tokens (OpData bytes _) = map Inl bytes"
| "op_tokens OpFlush = []"
| "op_tokens (OpSend event) = event_tokens event"

fun run_sink :: "(nat \<Rightarrow> bool) \<Rightarrow> sink_op \<Rightarrow> event_sink \<Rightarrow> (protocol_error, unit) result \<times> event_sink" where
  "run_sink accepts (OpData bytes now) s = sink_data accepts now bytes s"
| "run_sink accepts OpFlush s = sink_flush accepts s"
| "run_sink accepts (OpSend event) s = sink_send accepts event s"

definition sink_step ::
  "(nat \<Rightarrow> bool) \<Rightarrow> sink_op \<Rightarrow> sink_op list \<times> event_sink
    \<Rightarrow> (protocol_error, unit) result \<times> sink_op list \<times> event_sink" where
  "sink_step accepts a st =
     (case run_sink accepts a (snd st) of (r, s') \<Rightarrow> (r, fst st @ [a], s'))"

definition input_tokens :: "sink_op list \<Rightarrow> token list" where
  "input_tokens ops = concat (map op_tokens ops)"

definition frames_bounded :: "sink_op list \<Rightarrow> event_sink \<Rightarrow> bool" where
  "frames_bounded ops s \<longleftrightarrow>
     (\<forall>f. Data f \<in> set (sk_sent s) \<longrightarrow>
        f \<noteq> [] \<and> length f \<le> co_max_bytes (sk_coalescer s) \<or> OpSend (Data f) \<in> set ops)"

definition sink_inv :: "(nat \<Rightarrow> bool) \<Rightarrow> nat \<Rightarrow> sink_op list \<times> event_sink \<Rightarrow> bool" where
  "sink_inv accepts m st \<longleftrightarrow>
     coalescer_ok (sk_coalescer (snd st)) \<and> co_max_bytes (sk_coalescer (snd st)) = m
   \<and> prefix (sent_tokens (snd st)) (input_tokens (fst st))
   \<and> (stream (snd st) = input_tokens (fst st) \<or> closed accepts (snd st))
   \<and> frames_bounded (fst st) (snd st)"

lemma run_sink_spec:
  assumes "coalescer_ok (sk_coalescer s)" and "run_sink accepts a s = (r, s')"
  shows "coalescer_ok (sk_coalescer s') \<and> co_max_bytes (sk_coalescer s') = co_max_bytes (sk_coalescer s)
    \<and> sink_outcome accepts (op_tokens a) s r s'
    \<and> (closed accepts s \<longrightarrow> sk_sent s' = sk_sent s)
    \<and> (\<forall>f. Data f \<in> set (sk_sent s') \<longrightarrow> Data f \<in> set (sk_sent s)
          \<or> f \<noteq> [] \<and> length f \<le> co_max_bytes (sk_coalescer s) \<or> a = OpSend (Data f))"
proof (cases a)
  case (OpData bytes now)
  with sink_data_spec [OF assms(1)] assms(2) show ?thesis by (fastforce simp: grew_by_frames_def)
next
  case OpFlush
  with sink_flush_spec [OF assms(1)] assms(2) show ?thesis by (fastforce simp: grew_by_frames_def)
next
  case (OpSend event)
  with sink_send_spec [OF assms(1)] assms(2) show ?thesis by (fastforce simp: grew_by_frames_def)
qed


lemma prefix_stream: "prefix (sent_tokens s) (stream s)"
  by (simp add: stream_def)

lemma sink_step_inv:
  assumes "sink_inv accepts m st"
  shows "sink_inv accepts m (snd (sink_step accepts a st))"
proof -
  obtain ops s where st: "st = (ops, s)" by (cases st)
  obtain r s' where run: "run_sink accepts a s = (r, s')" by fastforce
  from assms st have inv: "coalescer_ok (sk_coalescer s)" "co_max_bytes (sk_coalescer s) = m"
    "prefix (sent_tokens s) (input_tokens ops)"
    "stream s = input_tokens ops \<or> closed accepts s" "frames_bounded ops s"
    by (simp_all add: sink_inv_def)
  note spec = run_sink_spec [OF inv(1) run]
  have input: "input_tokens (ops @ [a]) = input_tokens ops @ op_tokens a" by (simp add: input_tokens_def)
  have same: "sent_tokens s' = sent_tokens s" if "closed accepts s"
    using spec that by (simp add: sent_tokens_def)
  have "prefix (sent_tokens s') (input_tokens (ops @ [a]))
      \<and> (stream s' = input_tokens (ops @ [a]) \<or> closed accepts s')"
  proof (cases "closed accepts s")
    case True
    with spec inv(3) same show ?thesis by (simp add: input)
  next
    case False
    with inv(4) have "stream s = input_tokens ops" by blast
    with spec prefix_stream [of s'] show ?thesis by (auto simp: sink_outcome_def input)
  qed
  moreover have "frames_bounded (ops @ [a]) s'"
    using spec inv(5) by (auto simp: frames_bounded_def)
  ultimately show ?thesis
    using spec inv(2) by (simp add: sink_step_def st run sink_inv_def)
qed

interpretation sink_machine: guarded_machine "sink_step accepts" "\<lambda>_ _. True" "sink_inv accepts m" for accepts m
  by unfold_locales (rule sink_step_inv)

lemma sink_new_inv: "sink_inv accepts (max m 1) ([], sink_new i m)"
  by (simp add: sink_inv_def sink_new_def input_tokens_def sent_tokens_def stream_def frames_bounded_def)
    (simp add: coalescer_new_def)

lemma run_allowed_all [simp]: "run_allowed step (\<lambda>_ _. True) as s"
  by (induction as arbitrary: s) simp_all

lemma run_sink_history: "fst (run_machine (sink_step accepts) ops st) = fst st @ ops"
  by (induction ops arbitrary: st) (auto simp: sink_step_def split: prod.splits)

text \<open>The sink after a sequence of calls, started empty.\<close>

definition sink_after :: "(nat \<Rightarrow> bool) \<Rightarrow> duration \<Rightarrow> nat \<Rightarrow> sink_op list \<Rightarrow> event_sink" where
  "sink_after accepts i m ops = snd (run_machine (sink_step accepts) ops ([], sink_new i m))"

lemma sink_after_inv: "sink_inv accepts (max m 1) (ops, sink_after accepts i m ops)"
proof -
  have "sink_inv accepts (max m 1) (run_machine (sink_step accepts) ops ([], sink_new i m))"
    by (rule sink_machine.run_inv [OF sink_new_inv]) simp
  moreover have "run_machine (sink_step accepts) ops ([], sink_new i m) = (ops, sink_after accepts i m ops)"
    using run_sink_history [of accepts ops "([], sink_new i m)"] by (simp add: sink_after_def prod_eq_iff)
  ultimately show ?thesis by simp
qed

text \<open>
  C26. Nothing is lost, duplicated or reordered: after any sequence of writes, flushes and
  control events, what the consumer was sent, byte by byte and event by event, is a prefix of
  what the session handed in; while the consumer is there, what was sent followed by what is
  still buffered is exactly that, so a control event never overtakes output; and a flush with
  the consumer there leaves nothing buffered.
\<close>

theorem sink_is_lossless:
  fixes accepts :: "nat \<Rightarrow> bool" and i :: duration and m :: nat and ops :: "sink_op list"
  defines "s \<equiv> sink_after accepts i m ops"
  shows "prefix (concat (map event_tokens (sk_sent s))) (concat (map op_tokens ops))
    \<and> (accepts (length (sk_sent s)) \<longrightarrow>
        concat (map event_tokens (sk_sent s)) @ map Inl (co_buffer (sk_coalescer s))
          = concat (map op_tokens ops))
    \<and> co_buffer (sk_coalescer (snd (sink_flush accepts s))) = []"
proof -
  have "sink_inv accepts (max m 1) (ops, s)" unfolding s_def by (rule sink_after_inv)
  moreover have "co_buffer (sk_coalescer (snd (sink_flush accepts s))) = []"
    if "coalescer_ok (sk_coalescer s)"
    using sink_flush_spec [OF that] by (cases "sink_flush accepts s") simp
  ultimately show ?thesis
    by (auto simp: sink_inv_def input_tokens_def sent_tokens_def stream_def)
qed

definition sample_calls :: "sink_op list" where
  "sample_calls =
     [OpData [1, 2, 3, 4, 5] (\<lambda>k. k), OpSend (Resized 80 24), OpData [6] (\<lambda>k. 7 + k), OpFlush]"

theorem sink_is_lossless_witness:
  "sk_sent (sink_after (\<lambda>_. True) 100 2 sample_calls)
      = [Data [1, 2], Data [3, 4], Data [5], Resized 80 24, Data [6]]
    \<and> concat (map event_tokens (sk_sent (sink_after (\<lambda>_. True) 100 2 sample_calls)))
        @ map Inl (co_buffer (sk_coalescer (sink_after (\<lambda>_. True) 100 2 sample_calls)))
      = concat (map op_tokens sample_calls)"
proof -
  have "sk_sent (sink_after (\<lambda>_. True) 100 2 sample_calls)
      = [Data [1, 2], Data [3, 4], Data [5], Resized 80 24, Data [6]]"
    by code_simp
  with sink_is_lossless [of "\<lambda>_. True" 100 2 sample_calls] show ?thesis by blast
qed

text \<open>
  C27. Memory is bounded and a write always ends: after any sequence of calls fewer bytes are
  buffered than the ceiling (at least one byte), every frame the sink built holds between one
  byte and the ceiling, a timer is armed exactly when bytes are buffered, and whatever is
  written next, the call returns success, or that the consumer is gone; never the internal
  error of a coalescer that accepts nothing.
\<close>

theorem sink_is_bounded:
  fixes accepts :: "nat \<Rightarrow> bool" and i :: duration and m :: nat and ops :: "sink_op list"
  defines "s \<equiv> sink_after accepts i m ops"
  shows "coalescer_pending (sk_coalescer s) < max m 1
    \<and> (\<forall>f. Data f \<in> set (sk_sent s) \<longrightarrow>
          0 < length f \<and> length f \<le> max m 1 \<or> OpSend (Data f) \<in> set ops)
    \<and> (frame_deadline now s = None \<longleftrightarrow> coalescer_pending (sk_coalescer s) = 0)
    \<and> (fst (run_sink accepts a s) = Inr ()
       \<or> fst (run_sink accepts a s) = Inl EventStreamClosed
         \<and> \<not> accepts (length (sk_sent (snd (run_sink accepts a s)))))"
proof -
  have inv: "sink_inv accepts (max m 1) (ops, s)" unfolding s_def by (rule sink_after_inv)
  then have ok: "coalescer_ok (sk_coalescer s)" by (simp add: sink_inv_def)
  obtain r s' where "run_sink accepts a s = (r, s')" by fastforce
  with run_sink_spec [OF ok this] have
    "fst (run_sink accepts a s) = Inr ()
     \<or> fst (run_sink accepts a s) = Inl EventStreamClosed
       \<and> \<not> accepts (length (sk_sent (snd (run_sink accepts a s))))"
    by (auto simp: sink_outcome_def)
  with inv show ?thesis
    by (auto simp: sink_inv_def coalescer_ok_def coalescer_pending_def frame_deadline_def
        coalescer_time_to_deadline_def frames_bounded_def)
qed

theorem sink_is_bounded_witness:
  "Data [3, 4] \<in> set (sk_sent (sink_after (\<lambda>_. True) 100 2 sample_calls))
    \<and> coalescer_pending (sk_coalescer (sink_after (\<lambda>_. True) 100 2 sample_calls)) < max 2 1
    \<and> fst (run_sink (\<lambda>k. k < 3) OpFlush (sink_after (\<lambda>_. True) 100 2 sample_calls)) \<noteq> Inl (Internal [])"
proof -
  have "Data [3, 4] \<in> set (sk_sent (sink_after (\<lambda>_. True) 100 2 sample_calls))"
    "fst (run_sink (\<lambda>k. k < 3) OpFlush (sink_after (\<lambda>_. True) 100 2 sample_calls)) \<noteq> Inl (Internal [])"
    by code_simp+
  with sink_is_bounded [of "\<lambda>_. True" 100 2 sample_calls] show ?thesis by blast
qed

end
