(* ===== verification/Host_Key.thy ===== *)
theory Host_Key
  imports Events
begin

text \<open>
  \<open>crates/remoter-proto/src/hostkey.rs\<close>: fingerprints and their picture, the trust store's
  interface, and the decision about an offered key. SHA-256 and base64 are third-party code:
  the digest function, the encoder and the decoder are arguments.
\<close>

unbundle bit_operations_syntax

section \<open>Fingerprints\<close>

type_synonym digest_fun = "u8 list \<Rightarrow> u8 list"

definition fingerprint_sha256 :: "digest_fun \<Rightarrow> u8 list \<Rightarrow> fingerprint" where
  "fingerprint_sha256 sha256 blob = \<lparr>fp_digest = sha256 blob\<rparr>"

definition fingerprint_from_digest :: "u8 list \<Rightarrow> fingerprint" where
  "fingerprint_from_digest digest = \<lparr>fp_digest = digest\<rparr>"

definition strip_text :: "rstring \<Rightarrow> rstring \<Rightarrow> rstring option" where
  "strip_text pre s = (if take (length pre) s = pre then Some (drop (length pre) s) else None)"

definition trim_end_matches :: "nat \<Rightarrow> rstring \<Rightarrow> rstring" where
  "trim_end_matches c s = rev (dropWhile (\<lambda>x. x = c) (rev s))"

definition fingerprint_parse ::
  "(rstring \<Rightarrow> u8 list option) \<Rightarrow> rstring \<Rightarrow> (protocol_error, fingerprint) result" where
  "fingerprint_parse base64_decode text =
     (let body = trim (case strip_text (lit ''SHA256:'') text of None \<Rightarrow> text | Some b \<Rightarrow> b);
          body = trim_end_matches 0x3D body
      in and_then (ok_or MalformedFingerprint (base64_decode body)) (\<lambda>bytes.
           if length bytes = 32 then Inr \<lparr>fp_digest = bytes\<rparr> else Inl MalformedFingerprint))"

definition fingerprint_display :: "(u8 list \<Rightarrow> rstring) \<Rightarrow> fingerprint \<Rightarrow> rstring" where
  "fingerprint_display base64_encode fp = lit ''SHA256:'' @ base64_encode (fp_digest fp)"

section \<open>The picture\<close>

definition FIELD_WIDTH :: nat where "FIELD_WIDTH = 17"
definition FIELD_HEIGHT :: nat where "FIELD_HEIGHT = 9"

definition SYMBOLS :: rstring where "SYMBOLS = lit '' .o+=*BOX@%&#/^''"

text \<open>The walk's state: the position and the counters, row by row.\<close>

type_synonym bishop = "nat \<times> nat \<times> u8 list list"

definition bishop_move :: "u8 \<Rightarrow> bishop \<Rightarrow> bishop" where
  "bishop_move bits b =
     (case b of (x, y, field) \<Rightarrow>
        let x = (if bits AND 1 = 0 then x - 1 else if x < FIELD_WIDTH - 1 then x + 1 else x);
            y = (if bits AND 2 = 0 then y - 1 else if y < FIELD_HEIGHT - 1 then y + 1 else y);
            cell = field ! y ! x
        in (x, y, if unat cell < length SYMBOLS - 1 then field[y := (field ! y)[x := cell + 1]] else field))"

fun bishop_moves :: "nat \<Rightarrow> u8 \<Rightarrow> bishop \<Rightarrow> bishop" where
  "bishop_moves 0 bits b = b"
| "bishop_moves (Suc n) bits b = bishop_moves n (drop_bit 2 bits) (bishop_move bits b)"

definition bishop_walk :: "u8 list \<Rightarrow> bishop \<Rightarrow> bishop" where
  "bishop_walk digest b = fold (bishop_moves 4) digest b"

definition bishop_start :: bishop where
  "bishop_start =
     (FIELD_WIDTH div 2, FIELD_HEIGHT div 2, replicate FIELD_HEIGHT (replicate FIELD_WIDTH 0))"

definition border :: "rstring \<Rightarrow> rstring" where
  "border title =
     (let label = lit ''['' @ title @ lit '']'' in
      if length label > FIELD_WIDTH then lit ''+'' @ replicate FIELD_WIDTH 0x2D @ lit ''+''
      else
        let padding = FIELD_WIDTH - length label;
            left = padding div 2;
            right = padding - left
        in lit ''+'' @ replicate left 0x2D @ label @ replicate right 0x2D @ lit ''+'')"

definition cell_char :: "u8 \<Rightarrow> nat" where
  "cell_char cell =
     (if cell = 15 then 0x53 else if cell = 16 then 0x45 else SYMBOLS ! unat cell)"

definition art_row :: "u8 list \<Rightarrow> rstring" where
  "art_row row = [0x7C] @ map cell_char row @ [0x7C, 0x0A]"

definition mark :: "nat \<Rightarrow> nat \<Rightarrow> u8 \<Rightarrow> u8 list list \<Rightarrow> u8 list list" where
  "mark x y v field = field[y := (field ! y)[x := v]]"

definition randomart :: "u8 list \<Rightarrow> rstring \<Rightarrow> rstring" where
  "randomart digest title =
     (case bishop_walk digest bishop_start of (x, y, field) \<Rightarrow>
        let field = mark (FIELD_WIDTH div 2) (FIELD_HEIGHT div 2) 15 field;
            field = mark x y 16 field
        in border title @ [0x0A] @ concat (map art_row field) @ border (lit ''SHA256''))"

definition fingerprint_randomart :: "fingerprint \<Rightarrow> rstring \<Rightarrow> rstring" where
  "fingerprint_randomart fp title = randomart (fp_digest fp) title"

section \<open>Keys and the trust store\<close>

datatype trust_source = Prompted | ImportedKnownHosts | Pinned | Replaced

record known_key =
  kk_algorithm :: rstring
  kk_blob :: "u8 list"
  kk_added_at_ms :: i64
  kk_source :: trust_source

definition known_key_new :: "rstring \<Rightarrow> u8 list \<Rightarrow> i64 \<Rightarrow> trust_source \<Rightarrow> known_key" where
  "known_key_new algorithm blob added_at_ms source =
     \<lparr>kk_algorithm = algorithm, kk_blob = blob, kk_added_at_ms = added_at_ms, kk_source = source\<rparr>"

definition known_key_fingerprint :: "digest_fun \<Rightarrow> known_key \<Rightarrow> fingerprint" where
  "known_key_fingerprint sha256 k = fingerprint_sha256 sha256 (kk_blob k)"

record offered_key =
  ok_algorithm :: rstring
  ok_blob :: "u8 list"

definition offered_key_fingerprint :: "digest_fun \<Rightarrow> offered_key \<Rightarrow> fingerprint" where
  "offered_key_fingerprint sha256 k = fingerprint_sha256 sha256 (ok_blob k)"

text \<open>
  The methods of a \<open>TrustStore\<close>: reading leaves the store as it is, writing returns the store
  it leaves behind.
\<close>

type_synonym 's lookup_fun = "'s \<Rightarrow> host_port \<Rightarrow> rstring \<Rightarrow> known_key option"
type_synonym 's remember_fun = "host_port \<Rightarrow> known_key \<Rightarrow> 's \<Rightarrow> (protocol_error, unit) result \<times> 's"

record unknown_host_key =
  uk_host :: host_port
  uk_algorithm :: rstring
  uk_blob :: "u8 list"
  uk_fingerprint :: fingerprint
  uk_randomart :: rstring

record changed_host_key =
  ck_host :: host_port
  ck_algorithm :: rstring
  ck_blob :: "u8 list"
  ck_expected :: fingerprint
  ck_offered :: fingerprint
  ck_expected_first_trusted_at_ms :: i64
  ck_confirmation :: rstring

datatype host_key_outcome =
    OutcomeTrusted | OutcomeUnknown unknown_host_key | OutcomeChanged changed_host_key

datatype host_key_decision =
    DecisionTrusted
  | DecisionUnknown fingerprint rstring
  | DecisionChanged fingerprint rstring i64 fingerprint rstring

definition changed_randomart :: "changed_host_key \<Rightarrow> rstring" where
  "changed_randomart c = fingerprint_randomart (ck_offered c) (ck_algorithm c)"

definition changed_expected_randomart :: "changed_host_key \<Rightarrow> rstring" where
  "changed_expected_randomart c = fingerprint_randomart (ck_expected c) (ck_algorithm c)"

definition outcome_decision :: "host_key_outcome \<Rightarrow> host_key_decision" where
  "outcome_decision out =
     (case out of
        OutcomeTrusted \<Rightarrow> DecisionTrusted
      | OutcomeUnknown u \<Rightarrow> DecisionUnknown (uk_fingerprint u) (uk_randomart u)
      | OutcomeChanged c \<Rightarrow>
          DecisionChanged (ck_expected c) (changed_expected_randomart c)
            (ck_expected_first_trusted_at_ms c) (ck_offered c) (changed_randomart c))"

definition outcome_is_trusted :: "host_key_outcome \<Rightarrow> bool" where
  "outcome_is_trusted out = (case out of OutcomeTrusted \<Rightarrow> True | _ \<Rightarrow> False)"

section \<open>Acting on the decision\<close>

definition unknown_prompt :: "(u8 list \<Rightarrow> rstring) \<Rightarrow> unknown_host_key \<Rightarrow> prompt_kind" where
  "unknown_prompt base64_encode u =
     HostKeyPrompt (host_port_display (uk_host u)) (uk_algorithm u)
       (fingerprint_display base64_encode (uk_fingerprint u)) (uk_randomart u) None"

definition unknown_accept ::
  "'s remember_fun \<Rightarrow> i64 \<Rightarrow> trust_source \<Rightarrow> unknown_host_key \<Rightarrow> 's \<Rightarrow> (protocol_error, unit) result \<times> 's" where
  "unknown_accept remember now_ms source u store =
     remember (uk_host u) (known_key_new (uk_algorithm u) (uk_blob u) now_ms source) store"

definition unknown_reject :: "unknown_host_key \<Rightarrow> protocol_error" where
  "unknown_reject u = HostKeyRejected (uk_host u) (uk_algorithm u)"

definition changed_prompt :: "(u8 list \<Rightarrow> rstring) \<Rightarrow> changed_host_key \<Rightarrow> prompt_kind" where
  "changed_prompt base64_encode c =
     HostKeyPrompt (host_port_display (ck_host c)) (ck_algorithm c)
       (fingerprint_display base64_encode (ck_offered c)) (changed_randomart c)
       (Some \<lparr>thk_fingerprint = fingerprint_display base64_encode (ck_expected c),
              thk_randomart = changed_expected_randomart c,
              thk_first_trusted_at_ms = ck_expected_first_trusted_at_ms c\<rparr>)"

definition changed_into_error :: "changed_host_key \<Rightarrow> protocol_error" where
  "changed_into_error c =
     HostKeyChanged (ck_host c) (ck_algorithm c) (ck_expected c) (ck_offered c)"

definition eq_ignore_ascii_case :: "rstring \<Rightarrow> rstring \<Rightarrow> bool" where
  "eq_ignore_ascii_case a b \<longleftrightarrow> to_ascii_lowercase a = to_ascii_lowercase b"

definition accept_replacement ::
  "'s remember_fun \<Rightarrow> rstring \<Rightarrow> i64 \<Rightarrow> changed_host_key \<Rightarrow> 's \<Rightarrow> (protocol_error, unit) result \<times> 's" where
  "accept_replacement remember typed now_ms c store =
     (if \<not> eq_ignore_ascii_case (trim typed) (ck_confirmation c) then (Inl ConfirmationMismatch, store)
      else remember (ck_host c) (known_key_new (ck_algorithm c) (ck_blob c) now_ms Replaced) store)"

definition WORDS :: "rstring list" where
  "WORDS = map lit
     [''amber'', ''anchor'', ''beacon'', ''birch'', ''cobalt'', ''copper'', ''crimson'', ''delta'',
      ''ember'', ''falcon'', ''garnet'', ''harbor'', ''indigo'', ''ivory'', ''jasper'', ''kestrel'',
      ''lantern'', ''marble'', ''nickel'', ''onyx'', ''opal'', ''pewter'', ''quartz'', ''raven'',
      ''sable'', ''silver'', ''tundra'', ''umber'', ''violet'', ''walnut'', ''yarrow'', ''zephyr'']"

definition confirmation_word :: "fingerprint \<Rightarrow> rstring" where
  "confirmation_word fp =
     WORDS ! unat (fp_digest fp ! 0 AND 0x1F) @ lit ''-'' @ WORDS ! unat (fp_digest fp ! 1 AND 0x1F)"

definition verify_host_key ::
  "digest_fun \<Rightarrow> 's lookup_fun \<Rightarrow> 's \<Rightarrow> host_port \<Rightarrow> offered_key \<Rightarrow> host_key_outcome" where
  "verify_host_key sha256 lookup store host offered =
     (let fingerprint = offered_key_fingerprint sha256 offered in
      case lookup store host (ok_algorithm offered) of
        Some known \<Rightarrow>
          if kk_blob known = ok_blob offered then OutcomeTrusted
          else OutcomeChanged
            \<lparr>ck_host = host, ck_algorithm = ok_algorithm offered, ck_blob = ok_blob offered,
             ck_expected = known_key_fingerprint sha256 known, ck_offered = fingerprint,
             ck_expected_first_trusted_at_ms = kk_added_at_ms known,
             ck_confirmation = confirmation_word fingerprint\<rparr>
      | None \<Rightarrow> OutcomeUnknown
            \<lparr>uk_host = host, uk_algorithm = ok_algorithm offered, uk_blob = ok_blob offered,
             uk_fingerprint = fingerprint,
             uk_randomart = fingerprint_randomart fingerprint (ok_algorithm offered)\<rparr>)"

end
