(* ===== verification/Trust_Store.thy ===== *)
theory Trust_Store
  imports Host_Key
begin

text \<open>
  The contract of the trait \<open>TrustStore\<close> (\<open>crates/remoter-proto/src/hostkey.rs\<close>), which the
  host key check is a client of, and what the check promises over any store that keeps it:
  a key is trusted only once it was accepted, for every spelling of its host, and stays so
  until it is explicitly replaced.
\<close>

locale trust_store =
  fixes lookup :: "'s lookup_fun"
    and remember :: "'s remember_fun"
    and host_ok :: "host_port \<Rightarrow> bool"
  assumes lookup_remember:
    "host_ok host \<Longrightarrow> host_ok h \<Longrightarrow> remember host key s = (Inr (), s') \<Longrightarrow>
       lookup s' h a = (if host_port_eq host h \<and> a = kk_algorithm key then Some key else lookup s h a)"
begin

text \<open>A key accepted for one spelling of a host answers for every spelling, and only it does.\<close>

lemma accepted_is_trusted:
  assumes "host_ok host" and "host_ok h" and "host_port_eq host h"
    and "verify_host_key sha256 lookup s host offered = OutcomeUnknown u"
    and "unknown_accept remember now source u s = (Inr (), s')"
    and "ok_algorithm other = ok_algorithm offered"
  shows "outcome_is_trusted (verify_host_key sha256 lookup s' h other) \<longleftrightarrow> ok_blob other = ok_blob offered"
    and "\<not> outcome_is_trusted (verify_host_key sha256 lookup s' h other) \<Longrightarrow>
       \<exists>c. verify_host_key sha256 lookup s' h other = OutcomeChanged c
         \<and> ck_expected c = fingerprint_sha256 sha256 (ok_blob offered)
         \<and> ck_offered c = fingerprint_sha256 sha256 (ok_blob other)"
proof -
  have u: "uk_host u = host" "uk_algorithm u = ok_algorithm offered" "uk_blob u = ok_blob offered"
    using assms(4) by (auto simp: verify_host_key_def Let_def split: option.splits if_splits)
  have "lookup s' h (ok_algorithm other)
      = Some (known_key_new (ok_algorithm offered) (ok_blob offered) now source)"
    using lookup_remember [OF assms(1,2)] assms(3,5,6)
    by (simp add: unknown_accept_def u known_key_new_def)
  then show "outcome_is_trusted (verify_host_key sha256 lookup s' h other) \<longleftrightarrow> ok_blob other = ok_blob offered"
    "\<not> outcome_is_trusted (verify_host_key sha256 lookup s' h other) \<Longrightarrow>
       \<exists>c. verify_host_key sha256 lookup s' h other = OutcomeChanged c
         \<and> ck_expected c = fingerprint_sha256 sha256 (ok_blob offered)
         \<and> ck_offered c = fingerprint_sha256 sha256 (ok_blob other)"
    by (auto simp: verify_host_key_def Let_def outcome_is_trusted_def known_key_new_def
        known_key_fingerprint_def offered_key_fingerprint_def)
qed

text \<open>Replacing a changed key needs the word on the screen, and then trusts the new key only.\<close>

lemma replaced_is_trusted:
  assumes "host_ok host" and "host_ok h" and "host_port_eq host h"
    and "verify_host_key sha256 lookup s host offered = OutcomeChanged c"
    and "accept_replacement remember typed now c s = (Inr (), s')"
    and "ok_algorithm other = ok_algorithm offered"
  shows "eq_ignore_ascii_case (trim typed) (confirmation_word (fingerprint_sha256 sha256 (ok_blob offered)))"
    and "outcome_is_trusted (verify_host_key sha256 lookup s' h other) \<longleftrightarrow> ok_blob other = ok_blob offered"
proof -
  have c: "ck_host c = host" "ck_algorithm c = ok_algorithm offered" "ck_blob c = ok_blob offered"
    "ck_confirmation c = confirmation_word (fingerprint_sha256 sha256 (ok_blob offered))"
    using assms(4)
    by (auto simp: verify_host_key_def Let_def offered_key_fingerprint_def split: option.splits if_splits)
  have typed: "eq_ignore_ascii_case (trim typed) (ck_confirmation c)"
    and rem: "remember host (known_key_new (ok_algorithm offered) (ok_blob offered) now Replaced) s = (Inr (), s')"
    using assms(5) by (auto simp: accept_replacement_def c split: if_splits)
  show "eq_ignore_ascii_case (trim typed) (confirmation_word (fingerprint_sha256 sha256 (ok_blob offered)))"
    using typed c(4) by simp
  have "lookup s' h (ok_algorithm other)
      = Some (known_key_new (ok_algorithm offered) (ok_blob offered) now Replaced)"
    using lookup_remember [OF assms(1,2) rem] assms(3,6) by (simp add: known_key_new_def)
  then show "outcome_is_trusted (verify_host_key sha256 lookup s' h other) \<longleftrightarrow> ok_blob other = ok_blob offered"
    by (auto simp: verify_host_key_def Let_def outcome_is_trusted_def known_key_new_def)
qed

text \<open>A decision about one host and algorithm says nothing about another.\<close>

lemma other_hosts_unchanged:
  assumes "host_ok host" and "host_ok h" and "\<not> (host_port_eq host h \<and> ok_algorithm other = kk_algorithm key)"
    and "remember host key s = (Inr (), s')"
  shows "verify_host_key sha256 lookup s' h other = verify_host_key sha256 lookup s h other"
  using lookup_remember [OF assms(1,2,4)] assms(3)
  by (simp add: verify_host_key_def Let_def) metis

end

text \<open>A host that is trusted is trusted because its very key is stored.\<close>

lemma trusted_iff_stored:
  "outcome_is_trusted (verify_host_key sha256 lookup s h offered) \<longleftrightarrow>
     (\<exists>k. lookup s h (ok_algorithm offered) = Some k \<and> kk_blob k = ok_blob offered)"
  by (auto simp: verify_host_key_def Let_def outcome_is_trusted_def split: option.splits)

lemma wrong_word_changes_nothing:
  "\<not> eq_ignore_ascii_case (trim typed) (ck_confirmation c) \<Longrightarrow>
     accept_replacement remember typed now c s = (Inl ConfirmationMismatch, s)"
  by (simp add: accept_replacement_def)

end
