(* ===== verification/Vault_Trust.thy ===== *)
theory Vault_Trust
  imports Trust_Store
begin

text \<open>
  The trust store the application uses: \<open>VaultTrustStore\<close> of \<open>crates/remoter-ipc/src/bridge.rs\<close>
  over the trust and settings tables of the vault (\<open>crates/remoter-vault/src/storage.rs\<close> and
  \<open>vault.rs\<close>). SQLite, the JSON encoder and SHA-256 are third-party code: whether a statement
  succeeds, and the encoder, decoder and digest, are arguments. A table is the association
  list its unique index makes it; a read that fails answers as an absent row does.
\<close>

section \<open>Tables\<close>

type_synonym trust_key = "rstring \<times> u16 \<times> rstring \<times> rstring"

record trust_row =
  tr_id :: nat
  tr_fingerprint :: "u8 list"
  tr_raw :: "u8 list"
  tr_first_seen :: i64
  tr_last_seen :: i64
  tr_accepted_by :: rstring

datatype audit_event = TrustPinned | SettingChanged

record vault =
  v_trust :: "(trust_key, trust_row) hash_map"
  v_settings :: "(rstring, u8 list) hash_map"
  v_audit :: "(i64 \<times> audit_event \<times> rstring) list"

text \<open>The statements of one \<open>remember\<close>, and what the outside world answers them with.\<close>

datatype statement = InsertTrust | AuditTrust | InsertSetting | AuditSetting | SaveFile

record world =
  w_now :: i64
  w_id :: nat
  w_ok :: "statement \<Rightarrow> bool"

definition store_trust_pin ::
  "world \<Rightarrow> rstring \<Rightarrow> u16 \<Rightarrow> rstring \<Rightarrow> rstring \<Rightarrow> u8 list \<Rightarrow> u8 list \<Rightarrow> rstring \<Rightarrow> vault
    \<Rightarrow> (unit, nat) result \<times> vault" where
  "store_trust_pin w host port kind algorithm fingerprint raw accepted_by v =
     (if \<not> w_ok w InsertTrust then (Inl (), v)
      else
        let key = (host, port, kind, algorithm);
            row = (case map_of (v_trust v) key of
                     None \<Rightarrow>
                       \<lparr>tr_id = w_id w, tr_fingerprint = fingerprint, tr_raw = raw,
                        tr_first_seen = w_now w, tr_last_seen = w_now w, tr_accepted_by = accepted_by\<rparr>
                   | Some old \<Rightarrow>
                       old\<lparr>tr_fingerprint := fingerprint, tr_raw := raw, tr_last_seen := w_now w\<rparr>)
        in (Inr (w_id w), v\<lparr>v_trust := AList.update key row (v_trust v)\<rparr>))"

definition store_trust_lookup :: "vault \<Rightarrow> rstring \<Rightarrow> u16 \<Rightarrow> rstring \<Rightarrow> rstring \<Rightarrow> u8 list option" where
  "store_trust_lookup v host port kind algorithm =
     map_option tr_fingerprint (map_of (v_trust v) (host, port, kind, algorithm))"

definition store_setting :: "vault \<Rightarrow> rstring \<Rightarrow> u8 list option" where
  "store_setting v key = map_of (v_settings v) key"

definition store_set_setting :: "world \<Rightarrow> rstring \<Rightarrow> u8 list \<Rightarrow> vault \<Rightarrow> (unit, unit) result \<times> vault" where
  "store_set_setting w key bytes v =
     (if \<not> w_ok w InsertSetting then (Inl (), v)
      else (Inr (), v\<lparr>v_settings := AList.update key bytes (v_settings v)\<rparr>))"

definition vault_audit ::
  "world \<Rightarrow> statement \<Rightarrow> audit_event \<Rightarrow> rstring \<Rightarrow> vault \<Rightarrow> (unit, unit) result \<times> vault" where
  "vault_audit w stmt event detail v =
     (if \<not> w_ok w stmt then (Inl (), v)
      else (Inr (), v\<lparr>v_audit := v_audit v @ [(w_now w, event, detail)]\<rparr>))"

definition vault_trust_pin ::
  "world \<Rightarrow> rstring \<Rightarrow> u16 \<Rightarrow> rstring \<Rightarrow> rstring \<Rightarrow> u8 list \<Rightarrow> u8 list \<Rightarrow> rstring \<Rightarrow> vault
    \<Rightarrow> (unit, nat) result \<times> vault" where
  "vault_trust_pin w host port kind algorithm fingerprint raw accepted_by v =
     (case store_trust_pin w host port kind algorithm fingerprint raw accepted_by v of
        (Inl e, v1) \<Rightarrow> (Inl e, v1)
      | (Inr i, v1) \<Rightarrow>
          (case vault_audit w AuditTrust TrustPinned host v1 of
             (Inl e, v2) \<Rightarrow> (Inl e, v2)
           | (Inr _, v2) \<Rightarrow> (Inr i, v2)))"

definition vault_set_setting :: "world \<Rightarrow> rstring \<Rightarrow> u8 list \<Rightarrow> vault \<Rightarrow> (unit, unit) result \<times> vault" where
  "vault_set_setting w key bytes v =
     (case store_set_setting w key bytes v of
        (Inl e, v1) \<Rightarrow> (Inl e, v1)
      | (Inr _, v1) \<Rightarrow> vault_audit w AuditSetting SettingChanged key v1)"

section \<open>The store\<close>

definition TRUST_KIND :: rstring where "TRUST_KIND = lit ''ssh_hostkey''"
definition ACCEPTED_BY_PROMPT :: rstring where "ACCEPTED_BY_PROMPT = lit ''prompted''"
definition ACCEPTED_BY_IMPORT :: rstring where "ACCEPTED_BY_IMPORT = lit ''import''"

record cached_key =
  ca_algorithm :: rstring
  ca_blob :: "u8 list"
  ca_added_at_ms :: i64
  ca_source :: trust_source

definition cache_key :: "host_port \<Rightarrow> rstring \<Rightarrow> rstring" where
  "cache_key host algorithm =
     lit ''trust.ssh_hostkey.'' @ host_port_canonical host @ lit ''.'' @ algorithm"

definition trusted_fingerprint :: "vault \<Rightarrow> host_port \<Rightarrow> rstring \<Rightarrow> u8 list option" where
  "trusted_fingerprint v host algorithm =
     store_trust_lookup v (canonical_host (hp_host host)) (hp_port host) TRUST_KIND algorithm"

definition pin_key ::
  "digest_fun \<Rightarrow> (cached_key \<Rightarrow> u8 list option) \<Rightarrow> world \<Rightarrow> host_port \<Rightarrow> known_key \<Rightarrow> vault
    \<Rightarrow> (rstring, unit) result \<times> vault" where
  "pin_key sha256 to_json w host key v =
     (let accepted_by = (case kk_source key of ImportedKnownHosts \<Rightarrow> ACCEPTED_BY_IMPORT | _ \<Rightarrow> ACCEPTED_BY_PROMPT);
          fingerprint = known_key_fingerprint sha256 key
      in case vault_trust_pin w (canonical_host (hp_host host)) (hp_port host) TRUST_KIND
                (kk_algorithm key) (fp_digest fingerprint) (kk_blob key) accepted_by v of
           (Inl _, v1) \<Rightarrow> (Inl (lit ''the vault refused the write''), v1)
         | (Inr _, v1) \<Rightarrow>
             let cached = \<lparr>ca_algorithm = kk_algorithm key, ca_blob = kk_blob key,
                           ca_added_at_ms = kk_added_at_ms key, ca_source = kk_source key\<rparr>
             in case to_json cached of
                  None \<Rightarrow> (Inl (lit ''the key could not be encoded''), v1)
                | Some encoded \<Rightarrow>
                    (case vault_set_setting w (cache_key host (kk_algorithm key)) encoded v1 of
                       (Inl _, v2) \<Rightarrow> (Inl (lit ''the vault refused the write''), v2)
                     | (Inr _, v2) \<Rightarrow> (Inr (), v2)))"

text \<open>\<open>inner\<close> holds the open vault, or none when it is locked.\<close>

definition vault_lookup ::
  "digest_fun \<Rightarrow> (u8 list \<Rightarrow> cached_key option) \<Rightarrow> vault option lookup_fun" where
  "vault_lookup sha256 from_json inner host algorithm =
     Option.bind inner (\<lambda>v.
     Option.bind (trusted_fingerprint v host algorithm) (\<lambda>fingerprint.
     Option.bind (store_setting v (cache_key host algorithm)) (\<lambda>bytes.
     Option.bind (from_json bytes) (\<lambda>cached.
       if fp_digest (fingerprint_sha256 sha256 (ca_blob cached)) \<noteq> fingerprint then None
       else Some (known_key_new (ca_algorithm cached) (ca_blob cached) (ca_added_at_ms cached) (ca_source cached))))))"

definition vault_remember ::
  "digest_fun \<Rightarrow> (cached_key \<Rightarrow> u8 list option) \<Rightarrow> world \<Rightarrow> vault option remember_fun" where
  "vault_remember sha256 to_json w host key inner =
     (case inner of
        None \<Rightarrow> (Inl (TrustStoreFailed (lit ''record a host key'') (lit ''no vault is open'')), None)
      | Some v \<Rightarrow>
          (case pin_key sha256 to_json w host key v of
             (Inl detail, v1) \<Rightarrow> (Inl (TrustStoreFailed (lit ''record a host key'') detail), Some v1)
           | (Inr _, v1) \<Rightarrow>
               if w_ok w SaveFile then (Inr (), Some v1)
               else (Inl (TrustStoreFailed (lit ''save the vault after recording a host key'')
                            (lit ''the vault file could not be written'')), Some v1)))"


section \<open>One entry per machine and algorithm\<close>

text \<open>
  The hosts whose cache keys cannot be confused: valid, and with no closing bracket inside a
  zone identifier.
\<close>

definition plain_host :: "host_port \<Rightarrow> bool" where
  "plain_host hp \<longleftrightarrow> validate_host (hp_host hp) = Inr () \<and> 0x5D \<notin> set (butlast (hp_host hp))"

lemma split_at_first:
  assumes "xs @ c # zs = ys @ c # ws" and "c \<notin> set xs" and "c \<notin> set ys"
  shows "xs = ys \<and> zs = ws"
proof -
  have "takeWhile (\<lambda>x. x \<noteq> c) (us @ c # vs) = us" if "c \<notin> set us" for us vs :: "'a list"
    using that by (induction us) auto
  then have "xs = ys" using assms by metis
  with assms(1) show ?thesis by simp
qed

lemma decimal_digits: "c \<in> set (decimal n) \<Longrightarrow> 0x30 \<le> c \<and> c \<le> 0x39"
proof (induction n arbitrary: c rule: decimal.induct)
  case (1 n)
  have "n mod 10 < 10" by simp
  with 1 show ?case by (subst (asm) (2) decimal.simps) (auto split: if_splits)
qed

lemma decimal_inj: "decimal m = decimal n \<Longrightarrow> m = n"
proof -
  have val: "foldl (\<lambda>v c. v * 10 + (c - 0x30)) 0 (decimal n) = n" for n
  proof (induction n rule: decimal.induct)
    case (1 n)
    then show ?case by (subst decimal.simps) auto
  qed
  assume "decimal m = decimal n"
  then show "m = n" using val by metis
qed

lemma bracket_lower: "0x5D \<in> ascii_lower ` set s \<longleftrightarrow> 0x5D \<in> set s"
  by (force simp: ascii_lower_def is_ascii_uppercase_def)

text \<open>The canonical form ends where its closing bracket or the first colon is.\<close>

lemma canonical_form:
  assumes "plain_host hp"
  obtains (bracketed) b where "canonical_host (hp_host hp) = 0x5B # b @ [0x5D]" "0x5D \<notin> set b"
    | (plain) c cs where "canonical_host (hp_host hp) = c # cs" "c \<noteq> 0x5B" "0x3A \<notin> set (c # cs)"
proof -
  let ?h = "hp_host hp"
  from assms have valid: "validate_host ?h = Inr ()" and zone: "0x5D \<notin> set (butlast ?h)"
    by (simp_all add: plain_host_def)
  have empty: "?h \<noteq> []" using valid by (auto simp: validate_host_def)
  from valid show thesis
  proof (cases rule: valid_host_cases)
    case (v6 body)
    have body: "0x5D \<notin> set body" using zone v6(1) by (simp add: butlast_append)
    show thesis
    proof (cases "split_once 0x25 body")
      case None
      have "canonical_host ?h = 0x5B # map ascii_lower body @ [0x5D]"
        using canonical_v6 [of body] None by (simp add: v6(1))
      then show thesis by (rule bracketed) (simp add: bracket_lower body)
    next
      case (Some az)
      obtain a z where az: "az = (a, z)" by (cases az)
      have parts: "set a \<subseteq> set body" "set z \<subseteq> set body"
        using split_once_eq [OF Some [unfolded az]] by auto
      have "canonical_host ?h = 0x5B # (map ascii_lower a @ [0x25] @ z) @ [0x5D]"
        using canonical_v6 [of body] Some az by (simp add: v6(1))
      then show thesis
        by (rule bracketed) (use parts body in \<open>auto simp: bracket_lower\<close>)
    qed
  next
    case v4
    have c: "canonical_host ?h = ?h" using v4 by (simp add: canonical_host_def)
    have "list_all dotted ?h" using parse_ipv4_dotted [OF v4(2)] by simp
    then have "0x3A \<notin> set ?h \<and> 0x5B \<notin> set ?h"
      by (auto simp: list_all_iff dotted_def to_digit_def char_class_defs)
    with c empty show thesis by (cases ?h) (auto intro: plain)
  next
    case dns
    have c: "canonical_host ?h = map ascii_lower (strip_dot ?h)"
      using canonical_dns [OF dns(1,2)] by (simp add: to_ascii_lowercase_def)
    have "strip_dot ?h \<noteq> []"
      using dns(4) by (auto simp: validate_dns_name_def strip_dot_def)
    then obtain d ds where d: "strip_dot ?h = d # ds" by (cases "strip_dot ?h") auto
    have "ascii_lower d \<noteq> 0x5B"
      using strip_prefix_dot [OF dns(1)] d by (simp add: lower_simps split: if_splits)
    moreover have "0x3A \<notin> set (strip_dot ?h)"
      using dns(3) by (auto simp: strip_dot_def strip_suffix_def dest: in_set_butlastD split: if_splits)
    then have "0x3A \<notin> ascii_lower ` set (d # ds)" unfolding colon_lower d .
    ultimately show thesis using c d by (intro plain [of "ascii_lower d" "map ascii_lower ds"]) auto
  qed
qed

lemma cache_key_inj:
  assumes "plain_host host" and "plain_host h" and "cache_key host a = cache_key h b"
  shows "host_port_eq host h \<and> a = b"
proof -
  let ?c = "canonical_host (hp_host host)" and ?d = "canonical_host (hp_host h)"
  let ?p = "decimal (unat (hp_port host))" and ?q = "decimal (unat (hp_port h))"
  have eq: "?c @ 0x3A # ?p @ 0x2E # a = ?d @ 0x3A # ?q @ 0x2E # b"
    using assms(3) by (simp add: cache_key_def host_port_canonical_def lit_def)
  have "?c = ?d \<and> ?p @ 0x2E # a = ?q @ 0x2E # b"
    using assms(1)
  proof (cases rule: canonical_form)
    case c: (bracketed x)
    show ?thesis using assms(2)
    proof (cases rule: canonical_form)
      case (bracketed y)
      with c eq have "x @ 0x5D # 0x3A # ?p @ 0x2E # a = y @ 0x5D # 0x3A # ?q @ 0x2E # b" by simp
      from split_at_first [OF this c(2) bracketed(2)] c(1) bracketed(1) show ?thesis by simp
    next
      case (plain k ks)
      with c eq show ?thesis by simp
    qed
  next
    case c: (plain k ks)
    show ?thesis using assms(2)
    proof (cases rule: canonical_form)
      case (bracketed y)
      with c eq show ?thesis by simp
    next
      case (plain m ms)
      from split_at_first [OF eq] c plain show ?thesis by simp
    qed
  qed
  then have c: "?c = ?d" and rest: "?p @ 0x2E # a = ?q @ 0x2E # b" by blast+
  have "0x2E \<notin> set (decimal n)" for n by (auto dest: decimal_digits)
  from split_at_first [OF rest this this] have "unat (hp_port host) = unat (hp_port h)" "a = b"
    using decimal_inj by blast+
  with c show ?thesis by (simp add: host_port_eq_def word_unat_eq_iff)
qed


section \<open>The contract\<close>

definition json_faithful :: "(cached_key \<Rightarrow> u8 list option) \<Rightarrow> (u8 list \<Rightarrow> cached_key option) \<Rightarrow> bool" where
  "json_faithful to_json from_json \<longleftrightarrow> (\<forall>c bytes. to_json c = Some bytes \<longrightarrow> from_json bytes = Some c)"

definition cached_of :: "known_key \<Rightarrow> cached_key" where
  "cached_of key = \<lparr>ca_algorithm = kk_algorithm key, ca_blob = kk_blob key,
     ca_added_at_ms = kk_added_at_ms key, ca_source = kk_source key\<rparr>"

text \<open>What a successful \<open>remember\<close> has written.\<close>

lemma vault_remember_writes:
  assumes "vault_remember sha256 to_json w host key inner = (Inr (), inner')"
  obtains v v' bytes where "inner = Some v" "inner' = Some v'" "to_json (cached_of key) = Some bytes"
    "\<And>h port kind a. store_trust_lookup v' h port kind a =
       (if (h, port, kind, a) = (canonical_host (hp_host host), hp_port host, TRUST_KIND, kk_algorithm key)
        then Some (sha256 (kk_blob key)) else store_trust_lookup v h port kind a)"
    "\<And>k. store_setting v' k = (if k = cache_key host (kk_algorithm key) then Some bytes else store_setting v k)"
proof -
  from assms obtain v where v: "inner = Some v" by (cases inner) (auto simp: vault_remember_def)
  from assms obtain v' where pin: "pin_key sha256 to_json w host key v = (Inr (), v')" and inner': "inner' = Some v'"
    by (auto simp: vault_remember_def v split: prod.splits sum.splits if_splits)
  from pin obtain bytes where json: "to_json (cached_of key) = Some bytes"
    by (auto simp: pin_key_def cached_of_def Let_def split: prod.splits sum.splits option.splits)
  have "store_trust_lookup v' h port kind a =
       (if (h, port, kind, a) = (canonical_host (hp_host host), hp_port host, TRUST_KIND, kk_algorithm key)
        then Some (sha256 (kk_blob key)) else store_trust_lookup v h port kind a)" for h port kind a
    using pin
    by (auto simp: pin_key_def Let_def vault_trust_pin_def store_trust_pin_def vault_audit_def
        vault_set_setting_def store_set_setting_def store_trust_lookup_def update_conv'
        known_key_fingerprint_def fingerprint_sha256_def
        split: prod.splits sum.splits option.splits if_splits)
  moreover have "store_setting v' k = (if k = cache_key host (kk_algorithm key) then Some bytes else store_setting v k)" for k
    using pin json
    by (auto simp: pin_key_def cached_of_def Let_def vault_trust_pin_def store_trust_pin_def vault_audit_def
        vault_set_setting_def store_set_setting_def store_setting_def update_conv'
        split: prod.splits sum.splits option.splits if_splits)
  ultimately show thesis using that v inner' json by blast
qed

lemma cache_key_eq: "host_port_eq host h \<Longrightarrow> cache_key h a = cache_key host a"
  by (simp add: host_port_eq_def cache_key_def host_port_canonical_def)

interpretation vault_store: trust_store "vault_lookup sha256 from_json" "vault_remember sha256 to_json w"
    "\<lambda>h. json_faithful to_json from_json \<and> plain_host h"
  for sha256 from_json to_json w
proof unfold_locales
  fix host h key s s' a
  assume ok: "json_faithful to_json from_json \<and> plain_host host" "json_faithful to_json from_json \<and> plain_host h"
    and rem: "vault_remember sha256 to_json w host key s = (Inr (), s')"
  from rem show "vault_lookup sha256 from_json s' h a
      = (if host_port_eq host h \<and> a = kk_algorithm key then Some key else vault_lookup sha256 from_json s h a)"
  proof (rule vault_remember_writes)
    fix v v' bytes
    assume s: "s = Some v" "s' = Some v'" and json: "to_json (cached_of key) = Some bytes"
      and trust: "\<And>h port kind a. store_trust_lookup v' h port kind a =
       (if (h, port, kind, a) = (canonical_host (hp_host host), hp_port host, TRUST_KIND, kk_algorithm key)
        then Some (sha256 (kk_blob key)) else store_trust_lookup v h port kind a)"
      and setting: "\<And>k. store_setting v' k =
        (if k = cache_key host (kk_algorithm key) then Some bytes else store_setting v k)"
    show ?thesis
    proof (cases "host_port_eq host h \<and> a = kk_algorithm key")
      case True
      then have "trusted_fingerprint v' h a = Some (sha256 (kk_blob key))"
        by (simp add: trusted_fingerprint_def trust host_port_eq_def)
      moreover have "store_setting v' (cache_key h a) = Some bytes"
        using True by (simp add: setting cache_key_eq)
      moreover have "from_json bytes = Some (cached_of key)"
        using ok(1) json by (simp add: json_faithful_def)
      ultimately show ?thesis
        using True by (simp add: vault_lookup_def s fingerprint_sha256_def cached_of_def known_key_new_def)
    next
      case False
      then have "cache_key h a \<noteq> cache_key host (kk_algorithm key)"
        using ok cache_key_inj [of host h "kk_algorithm key" a] by metis
      moreover have "trusted_fingerprint v' h a = trusted_fingerprint v h a"
        using False by (auto simp: trusted_fingerprint_def trust host_port_eq_def)
      ultimately show ?thesis using False by (auto simp: vault_lookup_def s setting)
    qed
  qed
qed

text \<open>
  C23. Once a person accepted the key of a host they had never seen, the vault answers for
  every spelling of that host: with the very same key the connection is trusted without a
  question, with any other key of that algorithm it is reported as changed, naming both
  fingerprints; and no decision about another host or algorithm is affected.
\<close>

theorem accepted_key_is_the_trusted_one:
  assumes "json_faithful to_json from_json" and "plain_host host" and "plain_host h"
    and "verify_host_key sha256 (vault_lookup sha256 from_json) inner host offered = OutcomeUnknown u"
    and "unknown_accept (vault_remember sha256 to_json w) now source u inner = (Inr (), inner')"
  shows "(host_port_eq host h \<and> ok_algorithm other = ok_algorithm offered \<longrightarrow>
           (outcome_is_trusted (verify_host_key sha256 (vault_lookup sha256 from_json) inner' h other)
              \<longleftrightarrow> ok_blob other = ok_blob offered)
         \<and> (ok_blob other \<noteq> ok_blob offered \<longrightarrow>
              (\<exists>c. verify_host_key sha256 (vault_lookup sha256 from_json) inner' h other = OutcomeChanged c
                 \<and> ck_expected c = fingerprint_sha256 sha256 (ok_blob offered)
                 \<and> ck_offered c = fingerprint_sha256 sha256 (ok_blob other))))
    \<and> (\<not> (host_port_eq host h \<and> ok_algorithm other = ok_algorithm offered) \<longrightarrow>
         verify_host_key sha256 (vault_lookup sha256 from_json) inner' h other
           = verify_host_key sha256 (vault_lookup sha256 from_json) inner h other)"
proof -
  have u: "uk_host u = host" "uk_algorithm u = ok_algorithm offered"
    using assms(4) by (auto simp: verify_host_key_def Let_def split: option.splits if_splits)
  have rem: "vault_remember sha256 to_json w host (known_key_new (ok_algorithm offered) (uk_blob u) now source) inner
      = (Inr (), inner')"
    using assms(5) by (simp add: unknown_accept_def u)
  have same: "outcome_is_trusted (verify_host_key sha256 (vault_lookup sha256 from_json) inner' h other)
        \<longleftrightarrow> ok_blob other = ok_blob offered"
      "\<not> outcome_is_trusted (verify_host_key sha256 (vault_lookup sha256 from_json) inner' h other) \<Longrightarrow>
       \<exists>c. verify_host_key sha256 (vault_lookup sha256 from_json) inner' h other = OutcomeChanged c
         \<and> ck_expected c = fingerprint_sha256 sha256 (ok_blob offered)
         \<and> ck_offered c = fingerprint_sha256 sha256 (ok_blob other)"
    if "host_port_eq host h" "ok_algorithm other = ok_algorithm offered"
    using vault_store.accepted_is_trusted [OF _ _ that(1) assms(4,5) that(2)] assms(1-3) by blast+
  have "verify_host_key sha256 (vault_lookup sha256 from_json) inner' h other
      = verify_host_key sha256 (vault_lookup sha256 from_json) inner h other"
    if "\<not> (host_port_eq host h \<and> ok_algorithm other = ok_algorithm offered)"
    using vault_store.other_hosts_unchanged [OF _ _ _ rem] that assms(1-3) by (simp add: known_key_new_def)
  with same show ?thesis by blast
qed


text \<open>A small store to evaluate: a digest of two bytes, one key that can be encoded.\<close>

definition sample_key :: known_key where
  "sample_key = known_key_new (lit ''ssh-ed25519'') [7, 8, 9] 5 Prompted"

definition sample_to_json :: "cached_key \<Rightarrow> u8 list option" where
  "sample_to_json c = (if c = cached_of sample_key then Some [1]
     else if c = cached_of (sample_key\<lparr>kk_blob := [4], kk_source := Replaced\<rparr>) then Some [2] else None)"

definition sample_from_json :: "u8 list \<Rightarrow> cached_key option" where
  "sample_from_json bytes = (if bytes = [1] then Some (cached_of sample_key)
     else Some (cached_of (sample_key\<lparr>kk_blob := [4], kk_source := Replaced\<rparr>)))"

definition sample_digest :: digest_fun where
  "sample_digest blob = blob @ [0, 0]"

definition sample_world :: world where
  "sample_world = \<lparr>w_now = 5, w_id = 1, w_ok = (\<lambda>_. True)\<rparr>"

definition sample_host :: host_port where
  "sample_host = \<lparr>hp_host = lit ''DB-01.Internal'', hp_port = 22\<rparr>"

definition sample_spelling :: host_port where
  "sample_spelling = \<lparr>hp_host = lit ''db-01.internal.'', hp_port = 22\<rparr>"

definition sample_offer :: offered_key where
  "sample_offer = \<lparr>ok_algorithm = lit ''ssh-ed25519'', ok_blob = [7, 8, 9]\<rparr>"

definition sample_vault :: vault where
  "sample_vault = \<lparr>v_trust = [], v_settings = [], v_audit = []\<rparr>"

definition sample_accepted :: "vault option" where
  "sample_accepted = snd (vault_remember sample_digest sample_to_json sample_world sample_host sample_key (Some sample_vault))"

lemma sample_json_faithful: "json_faithful sample_to_json sample_from_json"
  by (auto simp: json_faithful_def sample_to_json_def sample_from_json_def)

lemma sample_hosts_plain: "plain_host sample_host" "plain_host sample_spelling"
  by code_simp+

theorem accepted_key_is_the_trusted_one_witness:
  "outcome_is_trusted (verify_host_key sample_digest (vault_lookup sample_digest sample_from_json)
      sample_accepted sample_spelling sample_offer)
   \<and> \<not> outcome_is_trusted (verify_host_key sample_digest (vault_lookup sample_digest sample_from_json)
      sample_accepted sample_spelling (sample_offer\<lparr>ok_blob := [6]\<rparr>))"
proof -
  obtain u where u: "verify_host_key sample_digest (vault_lookup sample_digest sample_from_json)
      (Some sample_vault) sample_host sample_offer = OutcomeUnknown u"
    and parts: "uk_host u = sample_host" "uk_algorithm u = lit ''ssh-ed25519''" "uk_blob u = [7, 8, 9]"
    by (simp add: verify_host_key_def vault_lookup_def trusted_fingerprint_def store_trust_lookup_def
        sample_vault_def sample_offer_def Let_def)
  have acc: "unknown_accept (vault_remember sample_digest sample_to_json sample_world) 5 Prompted u (Some sample_vault)
      = (Inr (), sample_accepted)"
  proof -
    have "fst (vault_remember sample_digest sample_to_json sample_world sample_host sample_key (Some sample_vault)) = Inr ()"
      by code_simp
    then show ?thesis
      by (simp add: unknown_accept_def parts sample_accepted_def prod_eq_iff flip: sample_key_def)
  qed
  have "host_port_eq sample_host sample_spelling" by code_simp
  then show ?thesis
    using accepted_key_is_the_trusted_one [OF sample_json_faithful sample_hosts_plain u acc, of sample_offer]
      accepted_key_is_the_trusted_one [OF sample_json_faithful sample_hosts_plain u acc, of "sample_offer\<lparr>ok_blob := [6]\<rparr>"]
    by (simp add: sample_offer_def)
qed

text \<open>
  C24. A key that differs from the stored one is never let through by itself: its failure is
  never retried; the stored key stays in place unless the typed word matches the one derived
  from the offered key, and a mismatch changes nothing; and after a replacement exactly the
  new key is trusted, for every spelling of the host.
\<close>

theorem changed_key_needs_the_word:
  assumes "json_faithful to_json from_json" and "plain_host host" and "plain_host h" and "host_port_eq host h"
    and "verify_host_key sha256 (vault_lookup sha256 from_json) inner host offered = OutcomeChanged c"
    and "ok_algorithm other = ok_algorithm offered"
  shows "\<not> is_retryable (changed_into_error c)
    \<and> (\<not> eq_ignore_ascii_case (trim typed) (confirmation_word (fingerprint_sha256 sha256 (ok_blob offered))) \<longrightarrow>
        accept_replacement (vault_remember sha256 to_json w) typed now c inner = (Inl ConfirmationMismatch, inner))
    \<and> (accept_replacement (vault_remember sha256 to_json w) typed now c inner = (Inr (), inner') \<longrightarrow>
        (outcome_is_trusted (verify_host_key sha256 (vault_lookup sha256 from_json) inner' h other)
           \<longleftrightarrow> ok_blob other = ok_blob offered))"
proof -
  have "ck_confirmation c = confirmation_word (fingerprint_sha256 sha256 (ok_blob offered))"
    using assms(5)
    by (auto simp: verify_host_key_def Let_def offered_key_fingerprint_def split: option.splits if_splits)
  moreover have "\<not> is_retryable (changed_into_error c)"
    by (simp add: changed_into_error_def is_retryable_root connectivity_failure_def)
  ultimately show ?thesis
    using wrong_word_changes_nothing [of typed c "vault_remember sha256 to_json w" now inner]
      vault_store.replaced_is_trusted(2) [OF _ _ assms(4,5) _ assms(6)] assms(1-3) by metis
qed

definition sample_replaced :: "vault option" where
  "sample_replaced = snd (vault_remember sample_digest sample_to_json sample_world sample_host
     (sample_key\<lparr>kk_blob := [4], kk_source := Replaced\<rparr>) sample_accepted)"

theorem changed_key_needs_the_word_witness:
  "outcome_is_trusted (verify_host_key sample_digest (vault_lookup sample_digest sample_from_json)
      sample_replaced sample_spelling (sample_offer\<lparr>ok_blob := [4]\<rparr>))
   \<and> \<not> outcome_is_trusted (verify_host_key sample_digest (vault_lookup sample_digest sample_from_json)
      sample_replaced sample_spelling sample_offer)"
proof -
  let ?new = "sample_offer\<lparr>ok_blob := [4]\<rparr>"
  have stored: "vault_lookup sample_digest sample_from_json sample_accepted sample_host (lit ''ssh-ed25519'') = Some sample_key"
    by code_simp
  obtain c where c: "verify_host_key sample_digest (vault_lookup sample_digest sample_from_json)
      sample_accepted sample_host ?new = OutcomeChanged c"
    and parts: "ck_host c = sample_host" "ck_algorithm c = lit ''ssh-ed25519''" "ck_blob c = [4]"
      "ck_confirmation c = confirmation_word \<lparr>fp_digest = [4, 0, 0]\<rparr>"
    by (simp add: verify_host_key_def stored sample_offer_def Let_def sample_key_def known_key_new_def
        offered_key_fingerprint_def fingerprint_sha256_def sample_digest_def)
  have word: "eq_ignore_ascii_case (trim (lit '' Cobalt-amber'')) (confirmation_word \<lparr>fp_digest = [4, 0, 0]\<rparr>)"
    by code_simp
  have "known_key_new (lit ''ssh-ed25519'') [4] 5 Replaced = sample_key\<lparr>kk_blob := [4], kk_source := Replaced\<rparr>"
    by (simp add: sample_key_def known_key_new_def)
  moreover have "fst (vault_remember sample_digest sample_to_json sample_world sample_host
     (sample_key\<lparr>kk_blob := [4], kk_source := Replaced\<rparr>) sample_accepted) = Inr ()"
    by code_simp
  ultimately have acc: "accept_replacement (vault_remember sample_digest sample_to_json sample_world)
      (lit '' Cobalt-amber'') 5 c sample_accepted = (Inr (), sample_replaced)"
    using word by (simp add: accept_replacement_def parts sample_replaced_def prod_eq_iff)
  have "host_port_eq sample_host sample_spelling" by code_simp
  from changed_key_needs_the_word [OF sample_json_faithful sample_hosts_plain this c, of ?new]
    changed_key_needs_the_word [OF sample_json_faithful sample_hosts_plain this c, of sample_offer] acc
  show ?thesis by (auto simp: sample_offer_def)
qed

text \<open>Pinning a host again keeps the row's account of who accepted the key it replaced.\<close>

lemma repin_keeps_accepted_by:
  assumes "map_of (v_trust v) (host, port, kind, algorithm) = Some old"
    and "store_trust_pin w host port kind algorithm fingerprint raw accepted_by v = (Inr i, v')"
  shows "map_option tr_accepted_by (map_of (v_trust v') (host, port, kind, algorithm)) = Some (tr_accepted_by old)
    \<and> map_option tr_fingerprint (map_of (v_trust v') (host, port, kind, algorithm)) = Some fingerprint"
  using assms by (auto simp: store_trust_pin_def Let_def update_conv' split: if_splits)

end
