(* ===== verification/Gateway.thy ===== *)
theory Gateway
  imports Coalesce
begin

text \<open>
  \<open>crates/remoter-proto/src/gateway.rs\<close>: a chain of gateways is validated before anything is
  dialled, then walked hop by hop. The dialers are traits implemented over third-party
  libraries: they are arguments, as is what the cancellation token answers each time it is
  asked. Credentials and trust stores travel with a hop unread: type parameters.
\<close>

definition DEFAULT_HOP_TIMEOUT :: duration where
  "DEFAULT_HOP_TIMEOUT = 30 * 1000000000"

record ('c, 't) hop_config =
  hc_node :: node_id
  hc_label :: rstring
  hc_endpoint :: host_port
  hc_protocol :: protocol_id
  hc_credentials :: 'c
  hc_trust :: 't
  hc_timeout :: duration

record ('c, 't) gateway_chain_plan =
  gp_hops :: "('c, 't) hop_config list"
  gp_target :: host_port

section \<open>The plan\<close>

fun plan_scan :: "node_id option \<Rightarrow> nat \<Rightarrow> ('c, 't) hop_config list \<Rightarrow> ('c, 't) hop_config list
    \<Rightarrow> (protocol_error, unit) result" where
  "plan_scan target_node n earlier [] = Inr ()"
| "plan_scan target_node n earlier (hop # rest) =
     (let repeats_earlier = list_ex (\<lambda>e. hc_node e = hc_node hop) earlier;
          is_the_target = (target_node = Some (hc_node hop))
      in if repeats_earlier \<or> is_the_target
         then Inl (GatewayCycle (hc_label hop) (length earlier + 1) n)
         else plan_scan target_node n (earlier @ [hop]) rest)"

definition plan_new :: "host_port \<Rightarrow> node_id option \<Rightarrow> ('c, 't) hop_config list
    \<Rightarrow> (protocol_error, ('c, 't) gateway_chain_plan) result" where
  "plan_new target target_node hops =
     (if length hops > MAX_GATEWAY_HOPS then Inl (GatewayTooLong (length hops) MAX_GATEWAY_HOPS)
      else and_then (plan_scan target_node (length hops) [] hops)
             (\<lambda>_. Inr \<lparr>gp_hops = hops, gp_target = target\<rparr>))"

definition plan_direct :: "host_port \<Rightarrow> ('c, 't) gateway_chain_plan" where
  "plan_direct target = \<lparr>gp_hops = [], gp_target = target\<rparr>"

definition plan_is_direct :: "('c, 't) gateway_chain_plan \<Rightarrow> bool" where
  "plan_is_direct plan \<longleftrightarrow> gp_hops plan = []"

definition plan_labels :: "('c, 't) gateway_chain_plan \<Rightarrow> rstring list" where
  "plan_labels plan = map hc_label (gp_hops plan)"

section \<open>The walk\<close>

definition label_hop :: "protocol_error \<Rightarrow> rstring \<Rightarrow> nat \<Rightarrow> nat \<Rightarrow> protocol_error" where
  "label_hop e label position hops =
     (case e of Cancelled \<Rightarrow> e | _ \<Rightarrow> at_hop e label position hops)"

definition with_cancel :: "bool \<Rightarrow> (protocol_error, 'x) result \<Rightarrow> (protocol_error, 'x) result" where
  "with_cancel fired r = (if fired then Inl Cancelled else r)"

type_synonym 'x entry_dialer = "host_port \<Rightarrow> duration \<Rightarrow> (protocol_error, 'x) result"
type_synonym ('c, 't, 'x) hop_dialer =
  "'x \<Rightarrow> host_port \<Rightarrow> ('c, 't) hop_config \<Rightarrow> (protocol_error, 'x) result"

text \<open>
  The token is asked before hop number \<open>position\<close> and while it is dialled: questions
  \<open>2 * position\<close> and \<open>2 * position + 1\<close>; questions 0 and 1 are those of the first leg.
\<close>

fun walk_hops :: "(nat \<Rightarrow> bool) \<Rightarrow> ('c, 't, 'x) hop_dialer \<Rightarrow> host_port \<Rightarrow> nat \<Rightarrow> nat \<Rightarrow> 'x
    \<Rightarrow> ('c, 't) hop_config list \<Rightarrow> (protocol_error, 'x) result" where
  "walk_hops cancel dial target n position transport [] = Inr transport"
| "walk_hops cancel dial target n position transport (hop # rest) =
     (if cancel (2 * position) then Inl Cancelled
      else
        let next = (case rest of [] \<Rightarrow> target | following # _ \<Rightarrow> hc_endpoint following) in
        and_then (map_err (\<lambda>e. label_hop e (hc_label hop) position n)
                    (with_cancel (cancel (2 * position + 1)) (dial transport next hop)))
          (\<lambda>transport'. walk_hops cancel dial target n (position + 1) transport' rest))"

definition chain_build :: "'x entry_dialer \<Rightarrow> ('c, 't, 'x) hop_dialer \<Rightarrow> (nat \<Rightarrow> bool)
    \<Rightarrow> ('c, 't) gateway_chain_plan \<Rightarrow> (protocol_error, 'x) result" where
  "chain_build entry dial cancel plan =
     (if cancel 0 then Inl Cancelled
      else
        (case gp_hops plan of
           [] \<Rightarrow> with_cancel (cancel 1) (entry (gp_target plan) DEFAULT_HOP_TIMEOUT)
         | first # _ \<Rightarrow>
             let n = length (gp_hops plan) in
             and_then (map_err (\<lambda>e. label_hop e (hc_label first) 1 n)
                         (with_cancel (cancel 1) (entry (hc_endpoint first) (hc_timeout first))))
               (\<lambda>transport. walk_hops cancel dial (gp_target plan) n 1 transport (gp_hops plan))))"

section \<open>What is accepted\<close>

lemma list_ex_node: "list_ex (\<lambda>e. hc_node e = i) hops \<longleftrightarrow> i \<in> hc_node ` set hops"
  by (auto simp: list_ex_iff)

lemma plan_scan_Inr_iff:
  "plan_scan tn n earlier hops = Inr () \<longleftrightarrow>
     distinct (map hc_node hops) \<and> set (map hc_node hops) \<inter> set (map hc_node earlier) = {}
     \<and> (\<forall>i. tn = Some i \<longrightarrow> i \<notin> set (map hc_node hops))"
  by (induction tn n earlier hops rule: plan_scan.induct)
    (auto simp: Let_def list_ex_node)

lemma plan_scan_Inl:
  "plan_scan tn n earlier hops = Inl e \<Longrightarrow>
     \<exists>i<length hops. e = GatewayCycle (hc_label (hops ! i)) (length earlier + i + 1) n
       \<and> (tn = Some (hc_node (hops ! i)) \<or> hc_node (hops ! i) \<in> hc_node ` set (earlier @ take i hops))
       \<and> plan_scan tn n earlier (take i hops) = Inr ()"
proof (induction tn n earlier hops rule: plan_scan.induct)
  case (1 tn n earlier)
  then show ?case by simp
next
  case (2 tn n earlier hop rest)
  show ?case
  proof (cases "list_ex (\<lambda>e. hc_node e = hc_node hop) earlier \<or> tn = Some (hc_node hop)")
    case True
    with "2.prems" show ?thesis
      by (intro exI [where x = 0]) (auto simp: Let_def list_ex_node split: if_splits)
  next
    case False
    with "2.prems" have "plan_scan tn n (earlier @ [hop]) rest = Inl e" by (simp add: Let_def)
    from "2.IH" [OF refl refl False this] obtain i where
      "i < length rest" "e = GatewayCycle (hc_label (rest ! i)) (length (earlier @ [hop]) + i + 1) n"
      "tn = Some (hc_node (rest ! i)) \<or> hc_node (rest ! i) \<in> hc_node ` set ((earlier @ [hop]) @ take i rest)"
      "plan_scan tn n (earlier @ [hop]) (take i rest) = Inr ()" by blast
    with False show ?thesis by (intro exI [where x = "Suc i"]) (simp add: Let_def)
  qed
qed



definition sample_hop :: "node_id \<Rightarrow> string \<Rightarrow> (unit, unit) hop_config" where
  "sample_hop i name =
     \<lparr>hc_node = i, hc_label = lit name, hc_endpoint = \<lparr>hp_host = lit name, hp_port = 22\<rparr>,
      hc_protocol = lit ''ssh'', hc_credentials = (), hc_trust = (), hc_timeout = 5\<rparr>"


section \<open>What is dialled\<close>

text \<open>
  The specification of the walk: the stream after \<open>i\<close> hops is the first leg, or the stream one
  hop shorter with the next gateway (or the target) opened through hop \<open>i\<close>.
\<close>

fun leg :: "'x entry_dialer \<Rightarrow> ('c, 't, 'x) hop_dialer \<Rightarrow> host_port \<Rightarrow> ('c, 't) hop_config list
    \<Rightarrow> nat \<Rightarrow> (protocol_error, 'x) result" where
  "leg entry dial target hops 0 = entry (hc_endpoint (hd hops)) (hc_timeout (hd hops))"
| "leg entry dial target hops (Suc i) =
     and_then (leg entry dial target hops i) (\<lambda>t.
       dial t (if Suc i < length hops then hc_endpoint (hops ! Suc i) else target) (hops ! i))"

lemma walk_hops_legs:
  assumes "hops = pre @ rest" and "leg entry dial target hops (length pre) = Inr t" and "n = length hops"
  shows "walk_hops (\<lambda>_. False) dial target n (length pre + 1) t rest =
    (case find (\<lambda>i. \<not> is_ok (leg entry dial target hops i)) [Suc (length pre) ..< Suc n] of
       None \<Rightarrow> leg entry dial target hops n
     | Some i \<Rightarrow> map_err (\<lambda>e. label_hop e (hc_label (hops ! (i - 1))) i n) (leg entry dial target hops i))"
  using assms
proof (induction rest arbitrary: pre t)
  case Nil
  then show ?case by simp
next
  case (Cons hop rest)
  let ?leg = "leg entry dial target hops"
  have hop: "hops ! length pre = hop" using Cons.prems(1) by simp
  have nxt: "(case rest of [] \<Rightarrow> target | following # _ \<Rightarrow> hc_endpoint following)
      = (if Suc (length pre) < length hops then hc_endpoint (hops ! Suc (length pre)) else target)"
    using Cons.prems(1) by (cases rest) (simp_all add: nth_append)
  have dial: "dial t (case rest of [] \<Rightarrow> target | following # _ \<Rightarrow> hc_endpoint following) hop
      = ?leg (Suc (length pre))"
    by (simp only: nxt leg.simps Cons.prems(2) and_then.simps hop)
  have len: "Suc (length pre) \<le> n" using Cons.prems(1,3) by simp
  then have up: "[Suc (length pre) ..< Suc n] = Suc (length pre) # [Suc (Suc (length pre)) ..< Suc n]"
    by (simp add: upt_conv_Cons del: upt_Suc)
  show ?case
  proof (cases "?leg (Suc (length pre))")
    case (Inl e)
    then show ?thesis unfolding up by (simp add: with_cancel_def dial hop del: leg.simps)
  next
    case (Inr t')
    have "walk_hops (\<lambda>_. False) dial target n (length (pre @ [hop]) + 1) t' rest =
      (case find (\<lambda>i. \<not> is_ok (?leg i)) [Suc (length (pre @ [hop])) ..< Suc n] of
         None \<Rightarrow> ?leg n
       | Some i \<Rightarrow> map_err (\<lambda>e. label_hop e (hc_label (hops ! (i - 1))) i n) (?leg i))"
      using Cons.prems Inr by (intro Cons.IH) (simp_all del: leg.simps)
    with Inr show ?thesis unfolding up by (simp add: with_cancel_def dial del: leg.simps upt_Suc)
  qed
qed

text \<open>Cancellation only ever replaces the result by \<open>Cancelled\<close>.\<close>

lemma walk_hops_cancel:
  "walk_hops cancel dial target n p t hops = Inl Cancelled
   \<or> walk_hops cancel dial target n p t hops = walk_hops (\<lambda>_. False) dial target n p t hops"
proof (induction hops arbitrary: p t)
  case Nil
  then show ?case by simp
next
  case (Cons hop rest)
  let ?next = "case rest of [] \<Rightarrow> target | following # _ \<Rightarrow> hc_endpoint following"
  show ?case
  proof (cases "cancel (2 * p) \<or> cancel (2 * p + 1)")
    case True
    then show ?thesis by (auto simp: with_cancel_def label_hop_def)
  next
    case False
    with Cons.IH [of "p + 1"] show ?thesis
      by (cases "dial t ?next hop") (simp_all add: with_cancel_def)
  qed
qed


lemma leg_ok_before: "is_ok (leg entry dial target hops n) \<Longrightarrow> i \<le> n \<Longrightarrow> is_ok (leg entry dial target hops i)"
proof (induction n)
  case 0
  then show ?case by simp
next
  case (Suc n)
  then have "is_ok (leg entry dial target hops n)" by (auto simp: result_simps)
  with Suc show ?case by (cases "i = Suc n") (auto simp del: leg.simps)
qed

lemma find_upt_least:
  assumes "a \<le> i" and "i < b" and "P i" and "\<forall>j<i. \<not> P j"
  shows "find P [a ..< b] = Some i"
proof -
  have "find P [a ..< b] = find P ([a ..< i] @ [i ..< b])"
    using assms(1,2) upt_add_eq_append [of a i "b - i"] by simp
  moreover have "find P [a ..< i] = None" using assms(4) by (auto simp: find_None_iff)
  moreover have "[i ..< b] = i # [Suc i ..< b]" using assms(2) by (simp add: upt_conv_Cons)
  moreover have "find P (xs @ ys) = (case find P xs of None \<Rightarrow> find P ys | Some x \<Rightarrow> Some x)" for xs ys
    by (induction xs) auto
  ultimately show ?thesis using assms(3) by simp
qed

lemma chain_build_first:
  assumes "gp_hops plan = first # others"
  shows "chain_build entry dial (\<lambda>_. False) plan =
    and_then (map_err (\<lambda>e. label_hop e (hc_label first) 1 (length (gp_hops plan)))
                (leg entry dial (gp_target plan) (gp_hops plan) 0))
      (\<lambda>t. walk_hops (\<lambda>_. False) dial (gp_target plan) (length (gp_hops plan)) 1 t (gp_hops plan))"
  using assms by (simp add: chain_build_def with_cancel_def)

lemma label_hop_verdict:
  "is_retryable (label_hop e l p n) = is_retryable e"
  "involves_identity_failure (label_hop e l p n) = involves_identity_failure e"
  "error_stage (label_hop e l p n) = error_stage e"
  by (cases e; simp add: label_hop_def is_retryable_root error_stage_def involves_identity_failure_def)+

text \<open>
  C31. A chain with gateways is walked in order, each hop opened through the one before it and
  the last one to the target. If every leg succeeds the result is the last leg; the first leg
  that fails ends the walk with its error, labelled with that hop's name and position (a
  cancellation stays bare) and with the same retry verdict, identity verdict and stage; and
  cancelling can only replace the result by \<open>Cancelled\<close>, never by a shorter chain.
\<close>

theorem chain_is_walked_in_order:
  fixes plan :: "('c, 't) gateway_chain_plan" and entry :: "'x entry_dialer"
    and dial :: "('c, 't, 'x) hop_dialer"
  defines "hops \<equiv> gp_hops plan"
  defines "legs \<equiv> leg entry dial (gp_target plan) hops"
  assumes "hops \<noteq> []"
  shows "(\<forall>t. legs (length hops) = Inr t \<longrightarrow> chain_build entry dial (\<lambda>_. False) plan = Inr t)
    \<and> (\<forall>i e. i \<le> length hops \<and> legs i = Inl e \<and> (\<forall>j<i. is_ok (legs j)) \<longrightarrow>
         chain_build entry dial (\<lambda>_. False) plan
           = Inl (label_hop e (hc_label (hops ! (i - 1))) (max i 1) (length hops))
         \<and> is_retryable (label_hop e (hc_label (hops ! (i - 1))) (max i 1) (length hops)) = is_retryable e
         \<and> error_stage (label_hop e (hc_label (hops ! (i - 1))) (max i 1) (length hops)) = error_stage e)
    \<and> (chain_build entry dial cancel plan = Inl Cancelled
       \<or> chain_build entry dial cancel plan = chain_build entry dial (\<lambda>_. False) plan)"
proof -
  obtain first others where hops: "gp_hops plan = first # others"
    using assms(3) unfolding hops_def by (cases "gp_hops plan") auto
  have walk: "chain_build entry dial (\<lambda>_. False) plan =
    (case find (\<lambda>i. \<not> is_ok (legs i)) [1 ..< Suc (length hops)] of
       None \<Rightarrow> legs (length hops)
     | Some i \<Rightarrow> map_err (\<lambda>e. label_hop e (hc_label (hops ! (i - 1))) i (length hops)) (legs i))"
    if "legs 0 = Inr t" for t
    using that chain_build_first [OF hops, of entry dial]
      walk_hops_legs [of hops "[]" hops entry dial "gp_target plan" t "length hops"]
    unfolding legs_def hops_def by (simp del: upt_Suc leg.simps)
  have reached: "chain_build entry dial (\<lambda>_. False) plan = Inr t" if h: "legs (length hops) = Inr t" for t
  proof -
    have ok: "is_ok (legs i)" if "i \<le> length hops" for i
      using leg_ok_before [of entry dial "gp_target plan" hops "length hops" i] h that by (simp add: legs_def)
    then obtain u where "legs 0 = Inr u" by (auto simp: result_simps)
    moreover have "find (\<lambda>i. \<not> is_ok (legs i)) [1 ..< Suc (length hops)] = None"
      using ok by (simp add: find_None_iff del: upt_Suc)
    ultimately show ?thesis using walk h by (simp del: upt_Suc)
  qed
  have failed: "chain_build entry dial (\<lambda>_. False) plan
           = Inl (label_hop e (hc_label (hops ! (i - 1))) (max i 1) (length hops))"
    if i: "i \<le> length hops" "legs i = Inl e" "\<forall>j<i. is_ok (legs j)" for i e
  proof (cases i)
    case 0
    with i(2) chain_build_first [OF hops, of entry dial] hops show ?thesis
      by (simp add: legs_def hops_def del: leg.simps)
  next
    case (Suc k)
    then obtain u where u: "legs 0 = Inr u" using i(3) by (auto simp: result_simps)
    have "find (\<lambda>i. \<not> is_ok (legs i)) [1 ..< Suc (length hops)] = Some i"
      using i Suc by (intro find_upt_least) simp_all
    with walk [OF u] i(2) Suc show ?thesis by (simp del: upt_Suc)
  qed
  have "chain_build entry dial cancel plan = Inl Cancelled
       \<or> chain_build entry dial cancel plan = chain_build entry dial (\<lambda>_. False) plan"
  proof (cases "cancel 0 \<or> cancel 1")
    case True
    then show ?thesis by (auto simp: chain_build_def hops with_cancel_def label_hop_def Let_def)
  next
    case False
    then show ?thesis
      using walk_hops_cancel [of cancel dial "gp_target plan" "length (gp_hops plan)" 1 _ "gp_hops plan"]
      by (cases "entry (hc_endpoint first) (hc_timeout first)")
        (auto simp: chain_build_def hops with_cancel_def Let_def simp del: walk_hops.simps)
  qed
  with reached failed show ?thesis by (simp add: label_hop_verdict)
qed

theorem chain_is_walked_in_order_witness:
  "chain_build (\<lambda>ep _. Inr [ep]) (\<lambda>via ep _. Inr (via @ [ep])) (\<lambda>_. False)
      \<lparr>gp_hops = [sample_hop (NodeId 1) ''a'', sample_hop (NodeId 2) ''b''], gp_target = sample_endpoint\<rparr>
    = Inr [hc_endpoint (sample_hop (NodeId 1) ''a''), hc_endpoint (sample_hop (NodeId 2) ''b''), sample_endpoint]
   \<and> chain_build (\<lambda>ep _. Inr [ep]) (\<lambda>via ep hop. if hc_node hop = NodeId 2 then Inl changed_key else Inr (via @ [ep])) (\<lambda>_. False)
      \<lparr>gp_hops = [sample_hop (NodeId 1) ''a'', sample_hop (NodeId 2) ''b''], gp_target = sample_endpoint\<rparr>
    = Inl (at_hop changed_key (lit ''b'') 2 2)"
proof -
  let ?plan = "\<lparr>gp_hops = [sample_hop (NodeId 1) ''a'', sample_hop (NodeId 2) ''b''], gp_target = sample_endpoint\<rparr>"
  let ?dial = "\<lambda>via ep (hop :: (unit, unit) hop_config).
    if hc_node hop = NodeId 2 then Inl changed_key else Inr (via @ [ep])"
  have bad: "label_hop changed_key l p n = at_hop changed_key l p n" for l p n
    by (simp add: label_hop_def changed_key_def)
  let ?hops = "[sample_hop (NodeId 1) ''a'', sample_hop (NodeId 2) ''b'']"
  have legs: "leg (\<lambda>ep _. Inr [ep]) ?dial sample_endpoint ?hops 2 = Inl changed_key"
    "\<forall>j<2. is_ok (leg (\<lambda>ep _. Inr [ep]) ?dial sample_endpoint ?hops j)"
    by (auto simp: numeral_2_eq_2 less_Suc_eq sample_hop_def)
  have "chain_build (\<lambda>ep _. Inr [ep]) ?dial (\<lambda>_. False) ?plan = Inl (at_hop changed_key (lit ''b'') 2 2)"
    using chain_is_walked_in_order [of ?plan "\<lambda>ep _. Inr [ep]" ?dial "\<lambda>_. False", THEN conjunct2, THEN conjunct1,
        THEN spec [where x = 2], THEN spec [where x = changed_key]] legs
    by (simp add: sample_hop_def bad numeral_2_eq_2)
  then show ?thesis
    using chain_is_walked_in_order [of ?plan "\<lambda>ep _. Inr [ep]" "\<lambda>via ep _. Inr (via @ [ep])" "\<lambda>_. False"]
    by (simp add: numeral_2_eq_2 sample_hop_def)
qed

end
