(* ===== verification/Bytes.thy ===== *)
theory Bytes
  imports Prelude
begin

text \<open>
  Machine integers as bytes, in both orders (\<open>to_le_bytes\<close>, \<open>from_le_bytes\<close>, \<open>to_be_bytes\<close>,
  \<open>from_be_bytes\<close>), slices as the checked \<open>get\<close> returns them, and the contract of a decoder
  that takes a prefix of its input and returns the rest.
\<close>

section \<open>Integers as little-endian bytes\<close>

primrec le_bytes :: "nat \<Rightarrow> int \<Rightarrow> u8 list" where
  "le_bytes 0 n = []"
| "le_bytes (Suc k) n = word_of_int (n mod 256) # le_bytes k (n div 256)"

primrec le_int :: "u8 list \<Rightarrow> int" where
  "le_int [] = 0"
| "le_int (b # bs) = uint b + 256 * le_int bs"

lemma length_le_bytes [simp]: "length (le_bytes k n) = k"
  by (induction k arbitrary: n) simp_all

lemma uint_byte [simp]: "uint (word_of_int n :: u8) = n mod 256"
  by (simp add: uint_word_of_int)

lemma uint_u8_range: "0 \<le> uint (b :: u8)" "uint (b :: u8) < 256"
  using uint_lt2p [of b] by simp_all

lemma le_int_nonneg [simp]: "0 \<le> le_int bs"
  by (induction bs) simp_all

lemma le_int_less: "le_int bs < 256 ^ length bs"
proof (induction bs)
  case Nil
  then show ?case by simp
next
  case (Cons b bs)
  then have "le_int bs + 1 \<le> 256 ^ length bs" by simp
  then have "256 * (le_int bs + 1) \<le> 256 * 256 ^ length bs" by simp
  with uint_u8_range(2) [of b] show ?case by simp
qed

lemma le_int_le_bytes: "0 \<le> n \<Longrightarrow> n < 256 ^ k \<Longrightarrow> le_int (le_bytes k n) = n"
proof (induction k arbitrary: n)
  case 0
  then show ?case by simp
next
  case (Suc k)
  then have "n div 256 < 256 ^ k" by (simp add: div_less_iff_less_mult mult.commute)
  moreover have "0 \<le> n div 256" using Suc.prems by simp
  ultimately have "le_int (le_bytes k (n div 256)) = n div 256" using Suc.IH by blast
  then show ?case by (simp add: mod_mult_div_eq)
qed

lemma le_bytes_le_int: "le_bytes (length bs) (le_int bs) = bs"
proof (induction bs)
  case Nil
  then show ?case by simp
next
  case (Cons b bs)
  have "(uint b + 256 * le_int bs) mod 256 = uint b" "(uint b + 256 * le_int bs) div 256 = le_int bs"
    using uint_u8_range [of b] by simp_all
  with Cons show ?case by simp
qed

section \<open>The integer types\<close>

definition put_u16_le :: "u16 \<Rightarrow> u8 list" where "put_u16_le w = le_bytes 2 (uint w)"
definition put_u32_le :: "u32 \<Rightarrow> u8 list" where "put_u32_le w = le_bytes 4 (uint w)"
definition put_u64_le :: "u64 \<Rightarrow> u8 list" where "put_u64_le w = le_bytes 8 (uint w)"

definition u16_from_le :: "u8 list \<Rightarrow> u16" where "u16_from_le bs = word_of_int (le_int bs)"
definition u32_from_le :: "u8 list \<Rightarrow> u32" where "u32_from_le bs = word_of_int (le_int bs)"
definition u64_from_le :: "u8 list \<Rightarrow> u64" where "u64_from_le bs = word_of_int (le_int bs)"

definition u16_to_be :: "u16 \<Rightarrow> u8 list" where "u16_to_be w = rev (le_bytes 2 (uint w))"
definition u32_to_be :: "u32 \<Rightarrow> u8 list" where "u32_to_be w = rev (le_bytes 4 (uint w))"
definition u64_to_be :: "u64 \<Rightarrow> u8 list" where "u64_to_be w = rev (le_bytes 8 (uint w))"

definition u16_from_be :: "u8 list \<Rightarrow> u16" where "u16_from_be bs = word_of_int (le_int (rev bs))"
definition u32_from_be :: "u8 list \<Rightarrow> u32" where "u32_from_be bs = word_of_int (le_int (rev bs))"
definition u64_from_be :: "u8 list \<Rightarrow> u64" where "u64_from_be bs = word_of_int (le_int (rev bs))"

lemma length_put [simp]:
  "length (put_u16_le a) = 2" "length (put_u32_le b) = 4" "length (put_u64_le c) = 8"
  "length (u16_to_be a) = 2" "length (u32_to_be b) = 4" "length (u64_to_be c) = 8"
  by (simp_all add: put_u16_le_def put_u32_le_def put_u64_le_def u16_to_be_def u32_to_be_def u64_to_be_def)

lemma from_put [simp]:
  "u16_from_le (put_u16_le a) = a" "u32_from_le (put_u32_le b) = b" "u64_from_le (put_u64_le c) = c"
  "u16_from_be (u16_to_be a) = a" "u32_from_be (u32_to_be b) = b" "u64_from_be (u64_to_be c) = c"
  using uint_lt2p [of a] uint_lt2p [of b] uint_lt2p [of c]
  by (simp_all add: put_u16_le_def put_u32_le_def put_u64_le_def u16_to_be_def u32_to_be_def
      u64_to_be_def u16_from_le_def u32_from_le_def u64_from_le_def u16_from_be_def u32_from_be_def
      u64_from_be_def le_int_le_bytes)

lemma put_from:
  "length bs = 2 \<Longrightarrow> put_u16_le (u16_from_le bs) = bs"
  "length bs = 4 \<Longrightarrow> put_u32_le (u32_from_le bs) = bs"
  "length bs = 2 \<Longrightarrow> u16_to_be (u16_from_be bs) = bs"
proof -
  have small: "n mod 2 ^ (8 * k) = n" if "0 \<le> n" "n < 256 ^ k" for n :: int and k :: nat
    using that by (simp add: power_mult)
  show "length bs = 2 \<Longrightarrow> put_u16_le (u16_from_le bs) = bs"
    using le_int_less [of bs] le_bytes_le_int [of bs] small [of "le_int bs" 2]
    by (simp add: put_u16_le_def u16_from_le_def uint_word_of_int)
  show "length bs = 4 \<Longrightarrow> put_u32_le (u32_from_le bs) = bs"
    using le_int_less [of bs] le_bytes_le_int [of bs] small [of "le_int bs" 4]
    by (simp add: put_u32_le_def u32_from_le_def uint_word_of_int)
  show "length bs = 2 \<Longrightarrow> u16_to_be (u16_from_be bs) = bs"
    using le_int_less [of "rev bs"] le_bytes_le_int [of "rev bs"] small [of "le_int (rev bs)" 2]
    by (simp add: u16_to_be_def u16_from_be_def uint_word_of_int)
qed

lemma put_from_u64: "length bs = 8 \<Longrightarrow> put_u64_le (u64_from_le bs) = bs"
proof -
  assume len: "length bs = 8"
  have "le_int bs < 256 ^ 8" using le_int_less [of bs] len by simp
  then have "le_int bs mod 2 ^ 64 = le_int bs" by simp
  then show ?thesis
    using le_bytes_le_int [of bs] len by (simp add: put_u64_le_def u64_from_le_def uint_word_of_int)
qed

section \<open>Sizes\<close>

text \<open>A \<open>usize\<close> of a 64-bit target is a \<open>nat\<close> below \<open>usize_bound\<close>.\<close>

definition usize_bound :: int where "usize_bound = 2 ^ 64"

definition checked_add :: "nat \<Rightarrow> nat \<Rightarrow> nat option" where
  "checked_add a b = (if int a + int b < usize_bound then Some (a + b) else None)"

definition checked_mul :: "nat \<Rightarrow> nat \<Rightarrow> nat option" where
  "checked_mul a b = (if int a * int b < usize_bound then Some (a * b) else None)"

lemma checked_add_Some: "checked_add a b = Some c \<longleftrightarrow> int a + int b < usize_bound \<and> c = a + b"
  by (auto simp: checked_add_def)

section \<open>Checked slices\<close>

text \<open>\<open>bytes.get(a..b)\<close>: present only when the whole range is inside.\<close>

definition get_slice :: "nat \<Rightarrow> nat \<Rightarrow> 'a list \<Rightarrow> 'a list option" where
  "get_slice a b xs = (if a \<le> b \<and> b \<le> length xs then Some (take (b - a) (drop a xs)) else None)"

definition get_at :: "nat \<Rightarrow> 'a list \<Rightarrow> 'a option" where
  "get_at i xs = (if i < length xs then Some (xs ! i) else None)"

text \<open>\<open>iter().position(P)\<close>: the index of the first element that satisfies \<open>P\<close>.\<close>

fun position :: "('a \<Rightarrow> bool) \<Rightarrow> 'a list \<Rightarrow> nat option" where
  "position P [] = None"
| "position P (x # xs) = (if P x then Some 0 else map_option Suc (position P xs))"

definition split_first :: "'a list \<Rightarrow> ('a \<times> 'a list) option" where
  "split_first xs = (case xs of [] \<Rightarrow> None | x # rest \<Rightarrow> Some (x, rest))"

lemma split_first_simps [simp]: "split_first [] = None" "split_first (x # xs) = Some (x, xs)"
  by (simp_all add: split_first_def)

lemma position_dropWhile:
  "position P xs = Some i \<Longrightarrow> drop i xs = dropWhile (\<lambda>x. \<not> P x) xs \<and> i < length xs \<and> P (xs ! i)"
  by (induction xs arbitrary: i) (auto split: if_splits)

lemma position_None_iff: "position P xs = None \<longleftrightarrow> (\<forall>x\<in>set xs. \<not> P x)"
  by (induction xs) auto

lemma get_slice_Some_iff:
  "get_slice a b xs = Some ys \<longleftrightarrow> a \<le> b \<and> b \<le> length xs \<and> ys = take (b - a) (drop a xs)"
  by (auto simp: get_slice_def)

lemma get_slice_length: "get_slice a b xs = Some ys \<Longrightarrow> length ys = b - a"
  by (auto simp: get_slice_Some_iff)

lemma get_slice_append: "get_slice (length xs) (length xs + length ys) (xs @ ys @ zs) = Some ys"
  by (simp add: get_slice_def)

section \<open>Prefix decoders\<close>

text \<open>
  The contract of a wire format: decoding what was encoded, followed by anything, gives the
  value back and leaves exactly what followed.
\<close>

locale prefix_codec =
  fixes enc :: "'a \<Rightarrow> 'b list"
    and dec :: "'b list \<Rightarrow> ('e, 'a \<times> 'b list) result"
    and ok :: "'a \<Rightarrow> bool"
  assumes dec_enc: "ok x \<Longrightarrow> dec (enc x @ rest) = Inr (x, rest)"
begin

lemma enc_inj:
  assumes "ok x" and "ok y" and "enc x @ xs = enc y @ ys"
  shows "x = y \<and> xs = ys"
proof -
  have "dec (enc x @ xs) = dec (enc y @ ys)" using assms(3) by (rule arg_cong)
  then show ?thesis unfolding dec_enc [OF assms(1)] dec_enc [OF assms(2)] by simp
qed

text \<open>No encoding is a proper prefix of another.\<close>

lemma prefix_free: "ok x \<Longrightarrow> ok y \<Longrightarrow> enc x @ xs = enc y \<Longrightarrow> x = y \<and> xs = []"
  using enc_inj [of x y xs "[]"] by simp

end

end
