(* ===== verification/Framebuffer.thy ===== *)
theory Framebuffer
  imports Bytes Coalesce
begin

text \<open>
  \<open>crates/remoter-proto/src/framebuffer.rs\<close>: rectangles, the wire format of framebuffer and
  cursor messages, and the coalescer that batches dirty rectangles. A \<open>usize\<close> is 64 bits.
\<close>

unbundle bit_operations_syntax

section \<open>Rectangles\<close>

definition FRAME_HEADER_BYTES :: nat where "FRAME_HEADER_BYTES = 16"
definition FRAME_RECT_BYTES :: nat where "FRAME_RECT_BYTES = 14"
definition MESSAGE_FRAMEBUFFER :: u8 where "MESSAGE_FRAMEBUFFER = 0"
definition MESSAGE_CURSOR :: u8 where "MESSAGE_CURSOR = 1"
definition FLAG_KEYFRAME :: u8 where "FLAG_KEYFRAME = 1"
definition DEFAULT_MAX_PENDING_BYTES :: nat where "DEFAULT_MAX_PENDING_BYTES = 4 * 1024 * 1024"
definition COPY_RECT_PAYLOAD_BYTES :: nat where "COPY_RECT_PAYLOAD_BYTES = 4"

record rect =
  r_x :: u16
  r_y :: u16
  r_width :: u16
  r_height :: u16

definition rect_new :: "u16 \<Rightarrow> u16 \<Rightarrow> u16 \<Rightarrow> u16 \<Rightarrow> rect" where
  "rect_new x y width height = \<lparr>r_x = x, r_y = y, r_width = width, r_height = height\<rparr>"

definition rect_surface :: "u16 \<Rightarrow> u16 \<Rightarrow> rect" where
  "rect_surface width height = rect_new 0 0 width height"

definition rect_is_empty :: "rect \<Rightarrow> bool" where
  "rect_is_empty r \<longleftrightarrow> r_width r = 0 \<or> r_height r = 0"

definition rect_pixels :: "rect \<Rightarrow> u32" where
  "rect_pixels r = ucast (r_width r) * ucast (r_height r)"

definition rect_right :: "rect \<Rightarrow> u32" where
  "rect_right r = ucast (r_x r) + ucast (r_width r)"

definition rect_bottom :: "rect \<Rightarrow> u32" where
  "rect_bottom r = ucast (r_y r) + ucast (r_height r)"

definition rect_contains :: "rect \<Rightarrow> rect \<Rightarrow> bool" where
  "rect_contains r other =
     (if rect_is_empty other then True
      else if rect_is_empty r then False
      else r_x r \<le> r_x other \<and> r_y r \<le> r_y other
        \<and> rect_right r \<ge> rect_right other \<and> rect_bottom r \<ge> rect_bottom other)"

datatype pixel_format = Bgrx8888 | Rgba8888

definition bytes_per_pixel :: "pixel_format \<Rightarrow> u8" where
  "bytes_per_pixel f = 4"

fun pixel_format_to_wire :: "pixel_format \<Rightarrow> u8" where
  "pixel_format_to_wire Bgrx8888 = 0"
| "pixel_format_to_wire Rgba8888 = 1"

definition pixel_format_from_wire :: "u8 \<Rightarrow> pixel_format option" where
  "pixel_format_from_wire b = (if b = 0 then Some Bgrx8888 else if b = 1 then Some Rgba8888 else None)"

definition raw_byte_len :: "rect \<Rightarrow> pixel_format \<Rightarrow> nat option" where
  "raw_byte_len r format = checked_mul (unat (rect_pixels r)) (unat (bytes_per_pixel format))"

datatype frame_encoding = Raw | Rle | Jpeg | CopyRect

fun frame_encoding_to_wire :: "frame_encoding \<Rightarrow> u8" where
  "frame_encoding_to_wire Raw = 0"
| "frame_encoding_to_wire Rle = 1"
| "frame_encoding_to_wire Jpeg = 2"
| "frame_encoding_to_wire CopyRect = 3"

definition frame_encoding_from_wire :: "u8 \<Rightarrow> frame_encoding option" where
  "frame_encoding_from_wire b =
     (if b = 0 then Some Raw else if b = 1 then Some Rle else if b = 2 then Some Jpeg
      else if b = 3 then Some CopyRect else None)"

record frame_rect =
  fr_rect :: rect
  fr_encoding :: frame_encoding
  fr_format :: pixel_format
  fr_payload :: "u8 list"

definition frame_rect_raw :: "rect \<Rightarrow> pixel_format \<Rightarrow> u8 list \<Rightarrow> frame_rect" where
  "frame_rect_raw r format payload =
     \<lparr>fr_rect = r, fr_encoding = Raw, fr_format = format, fr_payload = payload\<rparr>"

definition frame_rect_rle :: "rect \<Rightarrow> pixel_format \<Rightarrow> u8 list \<Rightarrow> frame_rect" where
  "frame_rect_rle r format payload =
     \<lparr>fr_rect = r, fr_encoding = Rle, fr_format = format, fr_payload = payload\<rparr>"

definition frame_rect_jpeg :: "rect \<Rightarrow> u8 list \<Rightarrow> frame_rect" where
  "frame_rect_jpeg r payload =
     \<lparr>fr_rect = r, fr_encoding = Jpeg, fr_format = Bgrx8888, fr_payload = payload\<rparr>"

definition frame_rect_copy :: "rect \<Rightarrow> u16 \<Rightarrow> u16 \<Rightarrow> frame_rect" where
  "frame_rect_copy destination source_x source_y =
     \<lparr>fr_rect = destination, fr_encoding = CopyRect, fr_format = Bgrx8888,
      fr_payload = put_u16_le source_x @ put_u16_le source_y\<rparr>"

definition copy_source :: "frame_rect \<Rightarrow> (u16 \<times> u16) option" where
  "copy_source f =
     (if fr_encoding f \<noteq> CopyRect \<or> length (fr_payload f) \<noteq> COPY_RECT_PAYLOAD_BYTES then None
      else Some (u16_from_le [fr_payload f ! 0, fr_payload f ! 1],
                 u16_from_le [fr_payload f ! 2, fr_payload f ! 3]))"

definition frame_rect_encoded_len :: "frame_rect \<Rightarrow> nat" where
  "frame_rect_encoded_len f = FRAME_RECT_BYTES + length (fr_payload f)"

section \<open>Messages\<close>

record frame_update =
  fu_seq :: u32
  fu_keyframe :: bool
  fu_rects :: "frame_rect list"

record cursor_update =
  cu_seq :: u32
  cu_hotspot_x :: u16
  cu_hotspot_y :: u16
  cu_width :: u16
  cu_height :: u16
  cu_format :: pixel_format
  cu_image :: "u8 list"

definition cursor_hidden :: "u32 \<Rightarrow> cursor_update" where
  "cursor_hidden seq =
     \<lparr>cu_seq = seq, cu_hotspot_x = 0, cu_hotspot_y = 0, cu_width = 0, cu_height = 0,
      cu_format = Rgba8888, cu_image = []\<rparr>"

definition cursor_is_hidden :: "cursor_update \<Rightarrow> bool" where
  "cursor_is_hidden c \<longleftrightarrow> cu_width c = 0 \<or> cu_height c = 0"

datatype frame_message = Framebuffer frame_update | Cursor cursor_update

fun message_seq :: "frame_message \<Rightarrow> u32" where
  "message_seq (Framebuffer update) = fu_seq update"
| "message_seq (Cursor update) = cu_seq update"

fun message_encoded_len :: "frame_message \<Rightarrow> nat" where
  "message_encoded_len (Framebuffer update) =
     FRAME_HEADER_BYTES + sum_list (map frame_rect_encoded_len (fu_rects update))"
| "message_encoded_len (Cursor update) =
     FRAME_HEADER_BYTES + FRAME_RECT_BYTES + length (cu_image update)"

definition put_header :: "session_id \<Rightarrow> u32 \<Rightarrow> u8 \<Rightarrow> u8 \<Rightarrow> u16 \<Rightarrow> u8 list" where
  "put_header session seq message flags count =
     put_u64_le session @ put_u32_le seq @ [message] @ [flags] @ put_u16_le count"

definition put_descriptor :: "rect \<Rightarrow> frame_encoding \<Rightarrow> pixel_format \<Rightarrow> nat \<Rightarrow> u8 list" where
  "put_descriptor r encoding format len =
     put_u16_le (r_x r) @ put_u16_le (r_y r) @ put_u16_le (r_width r) @ put_u16_le (r_height r)
     @ [frame_encoding_to_wire encoding] @ [pixel_format_to_wire format]
     @ put_u32_le (if int len < 2 ^ 32 then of_nat len else - 1)"

definition frame_rect_descriptor :: "frame_rect \<Rightarrow> u8 list" where
  "frame_rect_descriptor f =
     put_descriptor (fr_rect f) (fr_encoding f) (fr_format f) (length (fr_payload f))"

definition u16_max_len :: nat where "u16_max_len = 65535"

fun message_encode :: "frame_message \<Rightarrow> session_id \<Rightarrow> u8 list" where
  "message_encode (Framebuffer update) session =
     (let rects = (if length (fu_rects update) > u16_max_len then take u16_max_len (fu_rects update)
                   else fu_rects update);
          count = of_nat (length rects)
      in put_header session (fu_seq update) MESSAGE_FRAMEBUFFER
           (if fu_keyframe update then FLAG_KEYFRAME else 0) count
         @ concat (map frame_rect_descriptor rects)
         @ concat (map fr_payload rects))"
| "message_encode (Cursor update) session =
     put_header session (cu_seq update) MESSAGE_CURSOR 0 1
     @ put_descriptor
         (rect_new (cu_hotspot_x update) (cu_hotspot_y update) (cu_width update) (cu_height update))
         Raw (cu_format update) (length (cu_image update))
     @ cu_image update"

section \<open>Decoding\<close>

type_synonym descriptor = "rect \<times> frame_encoding \<times> pixel_format \<times> nat"

definition u16_at :: "u8 list \<Rightarrow> nat \<Rightarrow> u16" where
  "u16_at bytes at = u16_from_le [bytes ! at, bytes ! (at + 1)]"

definition u32_at :: "u8 list \<Rightarrow> nat \<Rightarrow> u32" where
  "u32_at bytes at = u32_from_le [bytes ! at, bytes ! (at + 1), bytes ! (at + 2), bytes ! (at + 3)]"

definition decode_descriptor :: "u8 list \<Rightarrow> nat \<Rightarrow> (protocol_error, descriptor) result" where
  "decode_descriptor bytes at =
     (let r = rect_new (u16_at bytes at) (u16_at bytes (at + 2)) (u16_at bytes (at + 4)) (u16_at bytes (at + 6)) in
      and_then (ok_or (ProtocolViolation (lit ''a rectangle with an unknown encoding''))
                  (frame_encoding_from_wire (bytes ! (at + 8)))) (\<lambda>encoding.
      and_then (ok_or (ProtocolViolation (lit ''a rectangle with an unknown pixel format''))
                  (pixel_format_from_wire (bytes ! (at + 9)))) (\<lambda>format.
        Inr (r, encoding, format, unat (u32_at bytes (at + 10))))))"

text \<open>The loop over the descriptor table, from entry \<open>index\<close> with \<open>left\<close> entries to go.\<close>

fun decode_descriptors :: "u8 list \<Rightarrow> nat \<Rightarrow> nat \<Rightarrow> nat \<Rightarrow> (protocol_error, descriptor list \<times> nat) result" where
  "decode_descriptors bytes index 0 payload_total = Inr ([], payload_total)"
| "decode_descriptors bytes index (Suc left) payload_total =
     and_then (decode_descriptor bytes (FRAME_HEADER_BYTES + index * FRAME_RECT_BYTES)) (\<lambda>d.
     and_then (ok_or (ProtocolViolation (lit ''a framebuffer message whose payloads overflow''))
                 (checked_add payload_total (snd (snd (snd d))))) (\<lambda>payload_total'.
     and_then (decode_descriptors bytes (index + 1) left payload_total') (\<lambda>(ds, n). Inr (d # ds, n))))"

fun cut_payloads :: "u8 list \<Rightarrow> nat \<Rightarrow> descriptor list \<Rightarrow> frame_rect list" where
  "cut_payloads bytes cursor [] = []"
| "cut_payloads bytes cursor ((r, encoding, format, len) # ds) =
     \<lparr>fr_rect = r, fr_encoding = encoding, fr_format = format, fr_payload = take len (drop cursor bytes)\<rparr>
     # cut_payloads bytes (cursor + len) ds"

definition decode_message ::
  "u8 \<Rightarrow> u8 \<Rightarrow> u32 \<Rightarrow> frame_rect list \<Rightarrow> (protocol_error, frame_message) result" where
  "decode_message message flags seq rects =
     (if message = MESSAGE_FRAMEBUFFER then
        Inr (Framebuffer \<lparr>fu_seq = seq, fu_keyframe = (flags AND FLAG_KEYFRAME \<noteq> 0), fu_rects = rects\<rparr>)
      else if message = MESSAGE_CURSOR then
        (case rects of
           [only] \<Rightarrow>
             Inr (Cursor \<lparr>cu_seq = seq, cu_hotspot_x = r_x (fr_rect only), cu_hotspot_y = r_y (fr_rect only),
               cu_width = r_width (fr_rect only), cu_height = r_height (fr_rect only),
               cu_format = fr_format only, cu_image = fr_payload only\<rparr>)
         | _ \<Rightarrow> Inl (ProtocolViolation (lit ''a cursor message with other than one rectangle'')))
      else Inl (ProtocolViolation (lit ''a framebuffer message of an unknown kind'')))"

definition message_decode :: "u8 list \<Rightarrow> (protocol_error, session_id \<times> frame_message) result" where
  "message_decode bytes =
     (if length bytes < FRAME_HEADER_BYTES
      then Inl (ProtocolViolation (lit ''a framebuffer message shorter than its header''))
      else
        let session = u64_from_le (take 8 bytes);
            seq = u32_at bytes 8;
            message = bytes ! 12;
            flags = bytes ! 13;
            count = unat (u16_at bytes 14);
            overflow = ProtocolViolation (lit ''a framebuffer message whose descriptor table overflows'')
        in
        and_then (ok_or overflow (checked_mul count FRAME_RECT_BYTES)) (\<lambda>table.
        and_then (ok_or overflow (checked_add FRAME_HEADER_BYTES table)) (\<lambda>descriptors_end.
        if length bytes < descriptors_end
        then Inl (ProtocolViolation (lit ''a framebuffer message shorter than its descriptor table''))
        else
          and_then (decode_descriptors bytes 0 count 0) (\<lambda>(descriptors, payload_total).
          and_then (ok_or (ProtocolViolation (lit ''a framebuffer message whose payloads overflow''))
                      (checked_add descriptors_end payload_total)) (\<lambda>expected.
          if length bytes \<noteq> expected
          then Inl (ProtocolViolation
                 (lit ''a framebuffer message whose payloads do not account for its length''))
          else
            and_then (decode_message message flags seq (cut_payloads bytes descriptors_end descriptors))
              (\<lambda>m. Inr (session, m)))))))"

definition message_emit :: "(nat \<Rightarrow> bool) \<Rightarrow> frame_message \<Rightarrow> session_id \<Rightarrow> event_sink
    \<Rightarrow> (protocol_error, unit) result \<times> event_sink" where
  "message_emit accepts m session s = sink_send accepts (Data (message_encode m session)) s"

end
