(* ===== verification/Frame_Codec.thy ===== *)
theory Frame_Codec
  imports Framebuffer
begin

text \<open>
  The wire format of graphical messages: decoding undoes encoding, and accepts nothing but
  what encoding produces, up to the flag bits and the cursor's encoding byte it ignores.
\<close>

section \<open>Little-endian fields\<close>

lemma two_bytes: "length xs = 2 \<Longrightarrow> xs = [xs ! 0, xs ! 1]"
  by (auto simp: numeral_2_eq_2 length_Suc_conv)

lemma four_bytes: "length xs = 4 \<Longrightarrow> xs = [xs ! 0, xs ! 1, xs ! 2, xs ! 3]"
  by (auto simp: numeral_eq_Suc length_Suc_conv)

lemma put_u16_bytes: obtains a b where "put_u16_le w = [a, b]" "u16_from_le [a, b] = w"
  using two_bytes [of "put_u16_le w"] from_put(1) [of w] that by (metis length_put(1))

lemma put_u32_bytes: obtains a b c d where "put_u32_le w = [a, b, c, d]" "u32_from_le [a, b, c, d] = w"
  using four_bytes [of "put_u32_le w"] from_put(2) [of w] that by (metis length_put(2))

lemma encoding_wire [simp]: "frame_encoding_from_wire (frame_encoding_to_wire e) = Some e"
  by (cases e) (simp_all add: frame_encoding_from_wire_def)

lemma encoding_of_wire: "frame_encoding_from_wire b = Some e \<Longrightarrow> frame_encoding_to_wire e = b"
  by (auto simp: frame_encoding_from_wire_def split: if_splits)

lemma format_wire [simp]: "pixel_format_from_wire (pixel_format_to_wire f) = Some f"
  by (cases f) (simp_all add: pixel_format_from_wire_def)

lemma format_of_wire: "pixel_format_from_wire b = Some f \<Longrightarrow> pixel_format_to_wire f = b"
  by (auto simp: pixel_format_from_wire_def split: if_splits)

lemma length_put_descriptor [simp]: "length (put_descriptor r e f n) = FRAME_RECT_BYTES"
  by (simp add: put_descriptor_def FRAME_RECT_BYTES_def)

lemma length_put_header [simp]: "length (put_header s q m fl c) = FRAME_HEADER_BYTES"
  by (simp add: put_header_def FRAME_HEADER_BYTES_def)

text \<open>A payload whose length the descriptor can hold.\<close>

definition fits_u32 :: "nat \<Rightarrow> bool" where
  "fits_u32 n \<longleftrightarrow> int n < 2 ^ 32"

lemma unat_of_nat_fits:
  assumes "fits_u32 n" shows "unat (of_nat n :: u32) = n"
proof -
  have "n < 2 ^ 32" using assms unfolding fits_u32_def by (metis of_nat_less_iff of_nat_numeral of_nat_power)
  then show ?thesis by (simp add: unat_of_nat take_bit_nat_eq_self)
qed

lemma fits_unat: "fits_u32 (unat (w :: u32))"
  using uint_lt2p [of w] by (simp add: fits_u32_def)

section \<open>Descriptors\<close>

lemma decode_put_descriptor:
  assumes "drop at bytes = put_descriptor r e f n @ rest" and "fits_u32 n"
  shows "decode_descriptor bytes at = Inr (r, e, f, n)"
proof -
  have "at \<le> length bytes"
  proof (rule ccontr)
    assume "\<not> at \<le> length bytes"
    then have "drop at bytes = []" by simp
    with assms(1) have "put_descriptor r e f n = []" by simp
    then show False using length_put_descriptor [of r e f n] by (simp add: FRAME_RECT_BYTES_def)
  qed
  then have nth: "bytes ! (at + k) = (put_descriptor r e f n @ rest) ! k" for k
    using assms(1) nth_drop by metis
  obtain x0 x1 where x: "put_u16_le (r_x r) = [x0, x1]" "u16_from_le [x0, x1] = r_x r" by (rule put_u16_bytes)
  obtain y0 y1 where y: "put_u16_le (r_y r) = [y0, y1]" "u16_from_le [y0, y1] = r_y r" by (rule put_u16_bytes)
  obtain w0 w1 where w: "put_u16_le (r_width r) = [w0, w1]" "u16_from_le [w0, w1] = r_width r" by (rule put_u16_bytes)
  obtain h0 h1 where h: "put_u16_le (r_height r) = [h0, h1]" "u16_from_le [h0, h1] = r_height r" by (rule put_u16_bytes)
  obtain l0 l1 l2 l3 where l: "put_u32_le (of_nat n) = [l0, l1, l2, l3]" "u32_from_le [l0, l1, l2, l3] = of_nat n"
    by (rule put_u32_bytes)
  have d: "put_descriptor r e f n @ rest = [x0, x1, y0, y1, w0, w1, h0, h1,
      frame_encoding_to_wire e, pixel_format_to_wire f, l0, l1, l2, l3] @ rest"
    using assms(2) by (simp add: put_descriptor_def x y w h l fits_u32_def)
  have "bytes ! at = x0" "bytes ! (at + 1) = x1" using nth [of 0] nth [of 1] by (simp_all add: d)
  then show ?thesis
    using nth [of 2] nth [of 3] nth [of 4] nth [of 5] nth [of 6] nth [of 7] nth [of 8] nth [of 9]
      nth [of 10] nth [of 11] nth [of 12] nth [of 13] unat_of_nat_fits [OF assms(2)]
    by (simp add: d decode_descriptor_def u16_at_def u32_at_def x y w h l rect_new_def numeral_eq_Suc)
qed

text \<open>Reading a descriptor tells which fourteen bytes it was.\<close>

lemma put_decode_descriptor:
  assumes "decode_descriptor bytes at = Inr (r, e, f, n)" and "at + FRAME_RECT_BYTES \<le> length bytes"
  shows "take FRAME_RECT_BYTES (drop at bytes) = put_descriptor r e f n" and "fits_u32 n"
proof -
  let ?b = "\<lambda>k. bytes ! (at + k)"
  have pair: "put_u16_le (u16_at bytes (at + k)) = [?b k, ?b (k + 1)]" for k
    using put_from(1) [of "[?b k, ?b (k + 1)]"] by (simp add: u16_at_def add.assoc)
  have quad: "put_u32_le (u32_at bytes (at + 10)) = [?b 10, ?b 11, ?b 12, ?b 13]"
    using put_from(2) [of "[?b 10, ?b 11, ?b 12, ?b 13]"] by (simp add: u32_at_def add.commute)
  from assms(1) have parts: "r = rect_new (u16_at bytes (at + 0)) (u16_at bytes (at + 2)) (u16_at bytes (at + 4)) (u16_at bytes (at + 6))"
    "frame_encoding_from_wire (?b 8) = Some e" "pixel_format_from_wire (?b 9) = Some f"
    "n = unat (u32_at bytes (at + 10))"
    by (auto simp: decode_descriptor_def Let_def result_simps)
  show fits: "fits_u32 n" unfolding parts(4) by (rule fits_unat)
  have "put_descriptor r e f n = map ?b [0 ..< 14]"
    using fits pair [of 0] pair [of 2] pair [of 4] pair [of 6] quad
    by (simp add: put_descriptor_def parts(1,4) rect_new_def encoding_of_wire [OF parts(2)]
        format_of_wire [OF parts(3)] fits_u32_def upt_rec) (simp add: numeral_eq_Suc)
  moreover have "take FRAME_RECT_BYTES (drop at bytes) = map ?b [0 ..< 14]"
    using assms(2) by (intro nth_equalityI) (simp_all add: FRAME_RECT_BYTES_def)
  ultimately show "take FRAME_RECT_BYTES (drop at bytes) = put_descriptor r e f n" by simp
qed


section \<open>The descriptor table\<close>

definition rect_descriptor :: "frame_rect \<Rightarrow> descriptor" where
  "rect_descriptor f = (fr_rect f, fr_encoding f, fr_format f, length (fr_payload f))"

definition payload_sum :: "descriptor list \<Rightarrow> nat" where
  "payload_sum ds = sum_list (map (\<lambda>d. snd (snd (snd d))) ds)"

lemma payload_sum_simps [simp]:
  "payload_sum [] = 0" "payload_sum (d # ds) = snd (snd (snd d)) + payload_sum ds"
  by (simp_all add: payload_sum_def)

lemma decode_table:
  assumes "drop (FRAME_HEADER_BYTES + index * FRAME_RECT_BYTES) bytes = concat (map frame_rect_descriptor rs) @ rest"
    and "\<forall>f\<in>set rs. fits_u32 (length (fr_payload f))"
    and "int n + int (payload_sum (map rect_descriptor rs)) < usize_bound"
  shows "decode_descriptors bytes index (length rs) n
    = Inr (map rect_descriptor rs, n + payload_sum (map rect_descriptor rs))"
  using assms
proof (induction rs arbitrary: index n)
  case Nil
  then show ?case by simp
next
  case (Cons f rs)
  let ?at = "FRAME_HEADER_BYTES + index * FRAME_RECT_BYTES"
  have here: "decode_descriptor bytes ?at = Inr (rect_descriptor f)"
    using Cons.prems(1,2) decode_put_descriptor [of ?at bytes "fr_rect f" "fr_encoding f" "fr_format f"]
    by (simp add: frame_rect_descriptor_def rect_descriptor_def)
  have "drop (FRAME_HEADER_BYTES + (index + 1) * FRAME_RECT_BYTES) bytes
      = drop FRAME_RECT_BYTES (drop ?at bytes)" by (simp add: algebra_simps)
  also have "\<dots> = concat (map frame_rect_descriptor rs) @ rest"
    unfolding Cons.prems(1) by (simp add: frame_rect_descriptor_def)
  finally have "decode_descriptors bytes (index + 1) (length rs) (n + length (fr_payload f))
      = Inr (map rect_descriptor rs, n + length (fr_payload f) + payload_sum (map rect_descriptor rs))"
    using Cons.prems(2,3) by (intro Cons.IH) (simp_all add: rect_descriptor_def)
  moreover have "checked_add n (length (fr_payload f)) = Some (n + length (fr_payload f))"
    using Cons.prems(3) by (simp add: checked_add_Some rect_descriptor_def)
  ultimately show ?case by (simp add: here) (simp add: rect_descriptor_def add.assoc)
qed

lemma cut_payloads_concat:
  assumes "drop cursor bytes = concat (map fr_payload rs)"
  shows "cut_payloads bytes cursor (map rect_descriptor rs) = rs"
  using assms
proof (induction rs arbitrary: cursor)
  case Nil
  then show ?case by simp
next
  case (Cons f rs)
  have "drop (cursor + length (fr_payload f)) bytes = drop (length (fr_payload f)) (drop cursor bytes)"
    by (simp add: add.commute)
  also have "\<dots> = concat (map fr_payload rs)" unfolding Cons.prems by simp
  finally show ?case using Cons.IH Cons.prems by (simp add: rect_descriptor_def)
qed

text \<open>A table of at most 65535 descriptors never overflows a size.\<close>

lemma payload_sum_bound:
  assumes "\<forall>d\<in>set ds. fits_u32 (snd (snd (snd d)))"
  shows "int (payload_sum ds) \<le> int (length ds) * 2 ^ 32"
  using assms by (induction ds) (auto simp: fits_u32_def algebra_simps)

lemma table_fits:
  assumes "length ds \<le> u16_max_len" and "\<forall>d\<in>set ds. fits_u32 (snd (snd (snd d)))"
  shows "int (FRAME_HEADER_BYTES + length ds * FRAME_RECT_BYTES) + int (payload_sum ds) < usize_bound"
proof -
  have "int (length ds) \<le> 65535" using assms(1) by (simp add: u16_max_len_def)
  then have "int (length ds) * 2 ^ 32 \<le> 65535 * 2 ^ 32" by (intro mult_right_mono) simp_all
  with payload_sum_bound [OF assms(2)] \<open>int (length ds) \<le> 65535\<close> show ?thesis
    by (simp add: FRAME_HEADER_BYTES_def FRAME_RECT_BYTES_def usize_bound_def)
qed


section \<open>Whole messages\<close>

lemma header_fields:
  fixes s q m fl c rest
  defines "bytes \<equiv> put_header s q m fl c @ rest"
  shows "u64_from_le (take 8 bytes) = s" "u32_at bytes 8 = q" "bytes ! 12 = m" "bytes ! 13 = fl" "u16_at bytes 14 = c"
proof -
  obtain q0 q1 q2 q3 where q: "put_u32_le q = [q0, q1, q2, q3]" "u32_from_le [q0, q1, q2, q3] = q"
    by (rule put_u32_bytes)
  obtain c0 c1 where c: "put_u16_le c = [c0, c1]" "u16_from_le [c0, c1] = c" by (rule put_u16_bytes)
  have nth: "bytes ! (8 + k) = ([q0, q1, q2, q3, m, fl, c0, c1] @ rest) ! k" for k
    using nth_append_length_plus [of "put_u64_le s" _ k]
    by (simp add: bytes_def put_header_def q c)
  show "u64_from_le (take 8 bytes) = s" by (simp add: bytes_def put_header_def)
  show "u32_at bytes 8 = q"
    using nth [of 0] nth [of 1] nth [of 2] nth [of 3] q(2) by (simp add: u32_at_def)
  show "bytes ! 12 = m" using nth [of 4] by simp
  show "bytes ! 13 = fl" using nth [of 5] by simp
  show "u16_at bytes 14 = c" using nth [of 6] nth [of 7] c(2) by (simp add: u16_at_def)
qed

lemma length_concat_descriptors:
  "length (concat (map frame_rect_descriptor rs)) = length rs * FRAME_RECT_BYTES"
  by (induction rs) (simp_all add: frame_rect_descriptor_def)

lemma length_concat_payloads:
  "length (concat (map fr_payload rs)) = payload_sum (map rect_descriptor rs)"
  by (induction rs) (simp_all add: rect_descriptor_def)

lemma decode_parts:
  assumes "length rs \<le> u16_max_len" and "\<forall>f\<in>set rs. fits_u32 (length (fr_payload f))"
  shows "message_decode (put_header s q m fl (of_nat (length rs))
      @ concat (map frame_rect_descriptor rs) @ concat (map fr_payload rs))
    = and_then (decode_message m fl q rs) (\<lambda>msg. Inr (s, msg))"
proof -
  define bytes where "bytes = put_header s q m fl (of_nat (length rs))
      @ concat (map frame_rect_descriptor rs) @ concat (map fr_payload rs)"
  have head: "u64_from_le (take 8 bytes) = s" "u32_at bytes 8 = q" "bytes ! 12 = m" "bytes ! 13 = fl"
    "u16_at bytes 14 = of_nat (length rs)"
    unfolding bytes_def by (rule header_fields)+
  have count: "unat (of_nat (length rs) :: u16) = length rs"
    using assms(1) by (simp add: unat_of_nat take_bit_nat_eq_self u16_max_len_def)
  let ?ds = "map rect_descriptor rs"
  let ?stop = "FRAME_HEADER_BYTES + length rs * FRAME_RECT_BYTES"
  have fits: "int ?stop + int (payload_sum ?ds) < usize_bound"
    using table_fits [of ?ds] assms by (simp add: rect_descriptor_def)
  have len: "length bytes = ?stop + payload_sum ?ds"
    by (simp add: bytes_def length_concat_descriptors length_concat_payloads)
  have table: "decode_descriptors bytes 0 (length rs) 0 = Inr (?ds, payload_sum ?ds)"
    using decode_table [of 0 bytes rs "concat (map fr_payload rs)" 0] assms(2) fits by (simp add: bytes_def)
  have cut: "cut_payloads bytes ?stop ?ds = rs"
    by (rule cut_payloads_concat) (simp add: bytes_def length_concat_descriptors)
  have "int (length rs) * int FRAME_RECT_BYTES < usize_bound" "int FRAME_HEADER_BYTES + int (length rs * FRAME_RECT_BYTES) < usize_bound"
    using fits by auto
  then have checks: "checked_mul (length rs) FRAME_RECT_BYTES = Some (length rs * FRAME_RECT_BYTES)"
    "checked_add FRAME_HEADER_BYTES (length rs * FRAME_RECT_BYTES) = Some ?stop"
    "checked_add ?stop (payload_sum ?ds) = Some (?stop + payload_sum ?ds)"
    using fits by (simp_all add: checked_mul_def checked_add_def)
  show ?thesis
    unfolding bytes_def [symmetric] message_decode_def
    by (simp add: Let_def head count checks table cut len)
qed

lemma encoded_len_sum:
  "sum_list (map frame_rect_encoded_len rs) = length rs * FRAME_RECT_BYTES + payload_sum (map rect_descriptor rs)"
  by (induction rs) (simp_all add: frame_rect_encoded_len_def rect_descriptor_def)



definition sample_update :: frame_update where
  "sample_update = \<lparr>fu_seq = 7, fu_keyframe = True,
     fu_rects = [frame_rect_raw (rect_new 1 2 1 1) Bgrx8888 [9, 8, 7, 6], frame_rect_copy (rect_new 0 0 2 2) 5 6]\<rparr>"


section \<open>Nothing else is accepted\<close>

definition descriptor_bytes :: "descriptor \<Rightarrow> u8 list" where
  "descriptor_bytes d = (case d of (r, e, f, n) \<Rightarrow> put_descriptor r e f n)"

lemma table_bytes:
  assumes "decode_descriptors bytes index left n = Inr (ds, n')"
    and "FRAME_HEADER_BYTES + (index + left) * FRAME_RECT_BYTES \<le> length bytes"
  shows "length ds = left \<and> n' = n + payload_sum ds \<and> (\<forall>d\<in>set ds. fits_u32 (snd (snd (snd d))))
    \<and> take (left * FRAME_RECT_BYTES) (drop (FRAME_HEADER_BYTES + index * FRAME_RECT_BYTES) bytes)
        = concat (map descriptor_bytes ds)"
  using assms
proof (induction left arbitrary: index n ds)
  case 0
  then show ?case by simp
next
  case (Suc left)
  let ?at = "FRAME_HEADER_BYTES + index * FRAME_RECT_BYTES"
  from Suc.prems(1) obtain d n1 ds' where
    d: "decode_descriptor bytes ?at = Inr d" and n1: "checked_add n (snd (snd (snd d))) = Some n1"
    and more: "decode_descriptors bytes (index + 1) left n1 = Inr (ds', n')" and ds: "ds = d # ds'"
    by (auto simp: result_simps)
  have room: "?at + FRAME_RECT_BYTES \<le> length bytes" using Suc.prems(2) by (simp add: algebra_simps)
  have "FRAME_HEADER_BYTES + (index + 1 + left) * FRAME_RECT_BYTES \<le> length bytes"
    using Suc.prems(2) by (simp add: algebra_simps)
  note IH = Suc.IH [OF more this]
  obtain r e f k where dd: "d = (r, e, f, k)" by (cases d) auto
  note here = put_decode_descriptor [OF d [unfolded dd] room]
  have "take (Suc left * FRAME_RECT_BYTES) (drop ?at bytes)
      = take FRAME_RECT_BYTES (drop ?at bytes) @ take (left * FRAME_RECT_BYTES) (drop (?at + FRAME_RECT_BYTES) bytes)"
    by (simp add: take_add add.commute)
  also have "?at + FRAME_RECT_BYTES = FRAME_HEADER_BYTES + (index + 1) * FRAME_RECT_BYTES"
    by (simp add: algebra_simps)
  finally show ?case
    using IH here n1 by (simp add: ds dd descriptor_bytes_def checked_add_Some)
qed

lemma cut_payloads_parts:
  assumes "cursor + payload_sum ds = length bytes"
  shows "map rect_descriptor (cut_payloads bytes cursor ds) = ds
    \<and> concat (map fr_payload (cut_payloads bytes cursor ds)) = drop cursor bytes"
  using assms
proof (induction bytes cursor ds rule: cut_payloads.induct)
  case (1 bytes cursor)
  then show ?case by simp
next
  case (2 bytes cursor r e f len ds)
  then have "length (take len (drop cursor bytes)) = len" by simp
  moreover have "take len (drop cursor bytes) @ drop (cursor + len) bytes = drop cursor bytes"
    by (metis add.commute append_take_drop_id drop_drop)
  ultimately show ?case using 2 by (simp add: rect_descriptor_def)
qed

lemma take_as_map: "n \<le> length xs \<Longrightarrow> take n xs = map ((!) xs) [0 ..< n]"
  by (intro nth_equalityI) simp_all

lemma header_bytes:
  assumes "FRAME_HEADER_BYTES \<le> length bytes"
  shows "take FRAME_HEADER_BYTES bytes
    = put_header (u64_from_le (take 8 bytes)) (u32_at bytes 8) (bytes ! 12) (bytes ! 13) (u16_at bytes 14)"
proof -
  have "put_u64_le (u64_from_le (take 8 bytes)) = map ((!) bytes) [0 ..< 8]"
    using assms put_from_u64 [of "take 8 bytes"] by (simp add: FRAME_HEADER_BYTES_def take_as_map)
  moreover have "put_u32_le (u32_at bytes 8) = map ((!) bytes) [8 ..< 12]"
    using put_from(2) [of "map ((!) bytes) [8 ..< 12]"] by (simp add: u32_at_def upt_rec)
  moreover have "put_u16_le (u16_at bytes 14) = map ((!) bytes) [14 ..< 16]"
    using put_from(1) [of "map ((!) bytes) [14 ..< 16]"] by (simp add: u16_at_def upt_rec)
  moreover have "take FRAME_HEADER_BYTES bytes = map ((!) bytes) [0 ..< 16]"
    using assms by (simp add: FRAME_HEADER_BYTES_def take_as_map)
  moreover have "[0 ..< 16] = [0 ..< 8] @ [8 ..< 12] @ [12, 13] @ [14 ..< 16 :: nat]"
    by (simp add: upt_rec)
  ultimately show ?thesis by (simp add: put_header_def del: upt_rec_numeral)
qed


text \<open>The shape of every accepted buffer.\<close>

lemma decode_shape:
  assumes "message_decode bytes = Inr (session, msg)"
  obtains q kind fl rs where
    "bytes = put_header session q kind fl (of_nat (length rs))
       @ concat (map frame_rect_descriptor rs) @ concat (map fr_payload rs)"
    "decode_message kind fl q rs = Inr msg" "length rs \<le> u16_max_len"
    "\<forall>f\<in>set rs. fits_u32 (length (fr_payload f))"
proof -
  let ?n = "unat (u16_at bytes 14)"
  let ?stop = "FRAME_HEADER_BYTES + ?n * FRAME_RECT_BYTES"
  from assms obtain ds n expected where head: "FRAME_HEADER_BYTES \<le> length bytes" "?stop \<le> length bytes"
    and table: "decode_descriptors bytes 0 ?n 0 = Inr (ds, n)"
    and total: "checked_add ?stop n = Some expected" "length bytes = expected"
    and msg: "decode_message (bytes ! 12) (bytes ! 13) (u32_at bytes 8) (cut_payloads bytes ?stop ds) = Inr msg"
    and session: "session = u64_from_le (take 8 bytes)"
    unfolding message_decode_def
    by (auto simp: Let_def result_simps checked_add_Some checked_mul_def split: if_splits)
  define rs where "rs = cut_payloads bytes ?stop ds"
  note t = table_bytes [OF table, simplified]
  have ds: "map rect_descriptor rs = ds" "concat (map fr_payload rs) = drop ?stop bytes"
    using cut_payloads_parts [of ?stop ds bytes] t total head(2) by (auto simp: rs_def checked_add_Some)
  then have len: "length rs = ?n" using t head(2) by (metis length_map)
  have "concat (map frame_rect_descriptor rs) = concat (map descriptor_bytes (map rect_descriptor rs))"
    by (intro arg_cong [where f = concat])
      (simp add: frame_rect_descriptor_def descriptor_bytes_def rect_descriptor_def)
  also have "\<dots> = take (?n * FRAME_RECT_BYTES) (drop FRAME_HEADER_BYTES bytes)"
    using t head(2) ds(1) by simp
  finally have mid: "concat (map frame_rect_descriptor rs) = take (?n * FRAME_RECT_BYTES) (drop FRAME_HEADER_BYTES bytes)" .
  have "of_nat (length rs) = u16_at bytes 14" by (simp add: len)
  then have "bytes = put_header session (u32_at bytes 8) (bytes ! 12) (bytes ! 13) (of_nat (length rs))
       @ concat (map frame_rect_descriptor rs) @ concat (map fr_payload rs)"
    using header_bytes [OF head(1)]
    by (simp add: session mid ds(2)) (metis append_take_drop_id drop_drop add.commute)
  moreover have "length rs \<le> u16_max_len"
    using len unsigned_less [of "u16_at bytes 14", where ?'a = nat] by (simp add: u16_max_len_def)
  moreover have "\<forall>f\<in>set rs. fits_u32 (length (fr_payload f))"
    using t head(2) ds(1) by (force simp: rect_descriptor_def)
  ultimately show thesis using that msg rs_def by blast
qed

lemma header_set_flags:
  "(put_header s q m fl c @ rest)[13 := v] = put_header s q m v c @ rest"
  by (simp add: put_header_def list_update_append)

lemma cursor_set_encoding:
  "(put_header s q m fl c @ put_descriptor r e f n @ rest)[24 := 0] = put_header s q m fl c @ put_descriptor r Raw f n @ rest"
  by (simp add: put_header_def put_descriptor_def list_update_append)

text \<open>
  C29. Decoding is exact: a buffer is accepted only if it is, byte for byte, the encoding of
  the message it decodes to, apart from the flag bits and the cursor's encoding byte, which
  are not read. So a truncated buffer, trailing bytes, a length that lies or an unknown kind,
  encoding or pixel format is always refused.
\<close>

theorem frame_decode_exact:
  assumes "message_decode bytes = Inr (session, msg)"
  shows "message_encode msg session =
      (case msg of Framebuffer _ \<Rightarrow> bytes[13 := bytes ! 13 AND FLAG_KEYFRAME] | Cursor _ \<Rightarrow> bytes[13 := 0, 24 := 0])
    \<and> length bytes = message_encoded_len msg"
  using assms
proof (rule decode_shape)
  fix q kind fl rs
  assume bytes: "bytes = put_header session q kind fl (of_nat (length rs))
       @ concat (map frame_rect_descriptor rs) @ concat (map fr_payload rs)"
    and msg: "decode_message kind fl q rs = Inr msg" and small: "length rs \<le> u16_max_len"
  have flag: "bytes ! 13 = fl" unfolding bytes by (rule header_fields)
  have len: "length bytes = FRAME_HEADER_BYTES + length rs * FRAME_RECT_BYTES + payload_sum (map rect_descriptor rs)"
    by (simp add: bytes length_concat_descriptors length_concat_payloads)
  show ?thesis
  proof (cases "kind = MESSAGE_FRAMEBUFFER")
    case True
    with msg have m: "msg = Framebuffer \<lparr>fu_seq = q, fu_keyframe = (fl AND FLAG_KEYFRAME \<noteq> 0), fu_rects = rs\<rparr>"
      by (simp add: decode_message_def)
    have bit: "(if fl AND FLAG_KEYFRAME \<noteq> 0 then FLAG_KEYFRAME else 0) = fl AND FLAG_KEYFRAME"
      by (simp add: FLAG_KEYFRAME_def and_one_eq)
    have "message_encode msg session = bytes[13 := fl AND FLAG_KEYFRAME]"
      using small True by (simp add: m bit Let_def bytes header_set_flags)
    then show ?thesis using len by (simp add: m flag encoded_len_sum)
  next
    case False
    with msg obtain f where kind: "kind = MESSAGE_CURSOR" and rs: "rs = [f]"
      and m: "msg = Cursor \<lparr>cu_seq = q, cu_hotspot_x = r_x (fr_rect f), cu_hotspot_y = r_y (fr_rect f),
         cu_width = r_width (fr_rect f), cu_height = r_height (fr_rect f), cu_format = fr_format f, cu_image = fr_payload f\<rparr>"
      by (auto simp: decode_message_def split: if_splits list.splits)
    have r: "\<lparr>r_x = r_x (fr_rect f), r_y = r_y (fr_rect f), r_width = r_width (fr_rect f),
        r_height = r_height (fr_rect f)\<rparr> = fr_rect f" by simp
    have "message_encode msg session = bytes[13 := 0, 24 := 0]"
      by (simp add: m bytes rs kind header_set_flags frame_rect_descriptor_def cursor_set_encoding rect_new_def r)
    then show ?thesis using len by (simp add: m rs rect_descriptor_def)
  qed
qed

theorem frame_decode_exact_witness:
  "message_decode (message_encode (Cursor (cursor_hidden 4)) 2) = Inr (2, Cursor (cursor_hidden 4))
   \<and> length (message_encode (Cursor (cursor_hidden 4)) 2) = 30"
proof -
  have "message_decode (message_encode (Cursor (cursor_hidden 4)) 2) = Inr (2, Cursor (cursor_hidden 4))"
    by code_simp
  with frame_decode_exact [OF this] show ?thesis
    by (simp add: cursor_hidden_def FRAME_HEADER_BYTES_def FRAME_RECT_BYTES_def)
qed

end
