(* ===== verification/Text_Codec.thy ===== *)
theory Text_Codec
  imports Rust_Std Bytes
begin

text \<open>
  The text encodings of the standard library the protocols use: \<open>str::from_utf8\<close>, which
  accepts exactly what \<open>str::bytes\<close> writes, and \<open>str::encode_utf16\<close>.
\<close>

section \<open>UTF-8\<close>

definition is_scalar :: "nat \<Rightarrow> bool" where
  "is_scalar c \<longleftrightarrow> c < 0xD800 \<or> 0xE000 \<le> c \<and> c < 0x110000"

text \<open>How many bytes the first byte announces, and the character those bytes stand for.\<close>

definition utf8_width :: "nat \<Rightarrow> nat" where
  "utf8_width b = (if b < 0x80 then 1 else if b < 0xC0 then 0 else if b < 0xE0 then 2
     else if b < 0xF0 then 3 else if b < 0xF8 then 4 else 0)"

definition utf8_scalar :: "nat list \<Rightarrow> nat" where
  "utf8_scalar bs =
     (case bs of
        [b0, b1] \<Rightarrow> (b0 - 0xC0) * 0x40 + (b1 - 0x80)
      | [b0, b1, b2] \<Rightarrow> (b0 - 0xE0) * 0x1000 + (b1 - 0x80) * 0x40 + (b2 - 0x80)
      | [b0, b1, b2, b3] \<Rightarrow> (b0 - 0xF0) * 0x40000 + (b1 - 0x80) * 0x1000 + (b2 - 0x80) * 0x40 + (b3 - 0x80)
      | b0 # _ \<Rightarrow> b0
      | [] \<Rightarrow> 0)"

lemma utf8_char_not_Nil [simp]: "utf8_char c \<noteq> []"
  by (simp add: utf8_char_def)

text \<open>
  Decoding rejects a surrogate, a value past the last character, and, because the character
  must encode to the very bytes read, an overlong form, a stray continuation byte and a
  truncated sequence.
\<close>

function utf8_decode :: "nat list \<Rightarrow> rstring option" where
  "utf8_decode [] = Some []"
| "utf8_decode (b # rest) =
     (let w = utf8_width b; bs = take w (b # rest); c = utf8_scalar bs in
      if \<not> is_scalar c \<or> utf8_char c \<noteq> bs then None
      else map_option (Cons c) (utf8_decode (drop w (b # rest))))"
  by pat_completeness auto

termination
proof (relation "measure length")
  fix b :: nat and rest w bs c
  assume "w = utf8_width b" "bs = take w (b # rest)" "c = utf8_scalar bs"
    and ok: "\<not> (\<not> is_scalar c \<or> utf8_char c \<noteq> bs)"
  then have "0 < w" by (cases w) auto
  then show "(drop w (b # rest), b # rest) \<in> measure length" by simp
qed simp

definition from_utf8 :: "u8 list \<Rightarrow> rstring option" where
  "from_utf8 bytes = utf8_decode (map unat bytes)"

definition to_utf8 :: "rstring \<Rightarrow> u8 list" where
  "to_utf8 s = map of_nat (str_bytes s)"

lemma digits_64:
  fixes c :: nat
  shows "c div 0x40 * 0x40 + c mod 0x40 = c"
    "c div 0x1000 * 0x1000 + c div 0x40 mod 0x40 * 0x40 + c mod 0x40 = c"
    "c div 0x40000 * 0x40000 + c div 0x1000 mod 0x40 * 0x1000 + c div 0x40 mod 0x40 * 0x40 + c mod 0x40 = c"
proof -
  have "c div 0x40 div 0x40 = c div 0x1000" "c div 0x1000 div 0x40 = c div 0x40000" by (simp_all add: div_mult2_eq [symmetric])
  moreover have "c div 0x40 div 0x40 * 0x40 + c div 0x40 mod 0x40 = c div 0x40"
    "c div 0x1000 div 0x40 * 0x40 + c div 0x1000 mod 0x40 = c div 0x1000" by simp_all
  moreover show "c div 0x40 * 0x40 + c mod 0x40 = c" by simp
  ultimately show "c div 0x1000 * 0x1000 + c div 0x40 mod 0x40 * 0x40 + c mod 0x40 = c"
    "c div 0x40000 * 0x40000 + c div 0x1000 mod 0x40 * 0x1000 + c div 0x40 mod 0x40 * 0x40 + c mod 0x40 = c"
    by linarith+
qed

lemma utf8_char_width:
  assumes "is_scalar c"
  obtains b bs where "utf8_char c = b # bs" "utf8_width b = length (utf8_char c)"
    "utf8_scalar (utf8_char c) = c"
proof -
  have c: "c < 0x110000" using assms by (auto simp: is_scalar_def)
  consider "c < 0x80" | "0x80 \<le> c" "c < 0x800" | "0x800 \<le> c" "c < 0x10000" | "0x10000 \<le> c" by linarith
  then show thesis
  proof cases
    case 1
    then show thesis by (intro that [of c "[]"]) (simp_all add: utf8_width_def utf8_scalar_def)
  next
    case 2
    then have "c div 0x40 < 0x20" by (simp add: less_mult_imp_div_less)
    with 2 show thesis using digits_64(1) [of c]
      by (intro that [of "0xC0 + c div 0x40"]) (simp_all add: utf8_char_def utf8_width_def utf8_scalar_def)
  next
    case 3
    then have "c div 0x1000 < 0x10" by (simp add: less_mult_imp_div_less)
    with 3 show thesis using digits_64(2) [of c]
      by (intro that [of "0xE0 + c div 0x1000"]) (simp_all add: utf8_char_def utf8_width_def utf8_scalar_def)
  next
    case 4
    then have "c div 0x40000 < 8" using c by (simp add: less_mult_imp_div_less)
    with 4 show thesis using digits_64(3) [of c]
      by (intro that [of "0xF0 + c div 0x40000"]) (simp_all add: utf8_char_def utf8_width_def utf8_scalar_def)
  qed
qed

lemma utf8_decode_str_bytes: "list_all is_scalar s \<Longrightarrow> utf8_decode (str_bytes s) = Some s"
proof (induction s)
  case Nil
  then show ?case by simp
next
  case (Cons c s)
  then obtain b bs where c: "utf8_char c = b # bs" "utf8_width b = length (utf8_char c)"
    "utf8_scalar (utf8_char c) = c" "is_scalar c" by (auto intro: utf8_char_width [of c])
  then have "take (utf8_width b) (b # bs @ str_bytes s) = utf8_char c"
    "drop (utf8_width b) (b # bs @ str_bytes s) = str_bytes s" by simp_all
  with Cons c show ?case by (simp add: Let_def)
qed

lemma utf8_decode_sound: "utf8_decode bs = Some s \<Longrightarrow> str_bytes s = bs \<and> list_all is_scalar s"
proof (induction bs arbitrary: s rule: utf8_decode.induct)
  case 1
  then show ?case by simp
next
  case (2 b rest)
  let ?w = "utf8_width b"
  from "2.prems" obtain s' where ok: "is_scalar (utf8_scalar (take ?w (b # rest)))"
    "utf8_char (utf8_scalar (take ?w (b # rest))) = take ?w (b # rest)"
    and s: "s = utf8_scalar (take ?w (b # rest)) # s'" "utf8_decode (drop ?w (b # rest)) = Some s'"
    by (auto simp: Let_def split: if_splits)
  from "2.IH" [OF refl refl refl _ s(2)] ok have "str_bytes s' = drop ?w (b # rest)" "list_all is_scalar s'"
    by auto
  then show ?case using ok by (simp add: s(1) del: take_Cons drop_Cons)
qed

lemma unat_utf8: "map unat (to_utf8 s) = str_bytes s" if "list_all is_scalar s"
proof -
  have "b < 0x100" if b: "b \<in> set (utf8_char c)" and c: "is_scalar c" for b c
  proof -
    have "c mod 0x40 < 0x40" "c div 0x40 mod 0x40 < 0x40" "c div 0x1000 mod 0x40 < 0x40" by simp_all
    moreover have "c < 0x800 \<Longrightarrow> c div 0x40 < 0x20" "c < 0x10000 \<Longrightarrow> c div 0x1000 < 0x10" "c div 0x40000 < 8"
      using c by (auto simp: is_scalar_def less_mult_imp_div_less)
    ultimately show ?thesis using b by (auto simp: utf8_char_def split: if_splits)
  qed
  then have "\<forall>b\<in>set (str_bytes s). unat (of_nat b :: u8) = b"
    using that by (auto simp: str_bytes_def list_all_iff unat_of_nat take_bit_nat_eq_self)
  then show ?thesis by (simp add: to_utf8_def comp_def map_idI)
qed

lemma from_utf8_to_utf8: "list_all is_scalar s \<Longrightarrow> from_utf8 (to_utf8 s) = Some s"
  by (simp add: from_utf8_def unat_utf8 utf8_decode_str_bytes)

section \<open>UTF-16\<close>

definition utf16_units :: "nat \<Rightarrow> u16 list" where
  "utf16_units c =
     (if c < 0x10000 then [of_nat c]
      else [of_nat (0xD800 + (c - 0x10000) div 0x400), of_nat (0xDC00 + (c - 0x10000) mod 0x400)])"

definition encode_utf16 :: "rstring \<Rightarrow> u16 list" where
  "encode_utf16 s = concat (map utf16_units s)"

end
