(* ===== verification/Ntlm_Crypto.thy ===== *)
theory Ntlm_Crypto
  imports Text_Codec
begin

text \<open>
  The primitives of \<open>crates/remoter-proto-rdp/src/credssp/crypto.rs\<close>: MD4 and RC4, written out
  there, and the text encoding of NTLM. MD5, HMAC-MD5, SHA-256 and the Unicode upper-casing
  tables are not part of the repository: they are the fields of \<open>primitives\<close>, and what the
  code relies on is that a digest has its documented size (\<open>digest_sizes\<close>).
\<close>

unbundle bit_operations_syntax

record primitives =
  pr_md5 :: "u8 list \<Rightarrow> u8 list"
  pr_hmac_md5 :: "u8 list \<Rightarrow> u8 list \<Rightarrow> u8 list option"
  pr_sha256 :: "u8 list \<Rightarrow> u8 list"
  pr_uppercase :: "rstring \<Rightarrow> rstring"

definition digest_sizes :: "primitives \<Rightarrow> bool" where
  "digest_sizes p \<longleftrightarrow> (\<forall>x. length (pr_md5 p x) = 16) \<and> (\<forall>x. length (pr_sha256 p x) = 32)
     \<and> (\<forall>k x t. pr_hmac_md5 p k x = Some t \<longrightarrow> length t = 16)"

definition hmac_md5 :: "primitives \<Rightarrow> u8 list \<Rightarrow> u8 list \<Rightarrow> u8 list" where
  "hmac_md5 p key data = (case pr_hmac_md5 p key data of None \<Rightarrow> replicate 16 0 | Some tag \<Rightarrow> tag)"

lemma length_hmac_md5 [simp]: "digest_sizes p \<Longrightarrow> length (hmac_md5 p key data) = 16"
  by (simp add: hmac_md5_def digest_sizes_def split: option.splits)

definition utf16le :: "rstring \<Rightarrow> u8 list" where
  "utf16le text = concat (map put_u16_le (encode_utf16 text))"

section \<open>MD4\<close>

type_synonym md4_state = "u32 \<times> u32 \<times> u32 \<times> u32"

definition md4_f :: "u32 \<Rightarrow> u32 \<Rightarrow> u32 \<Rightarrow> u32" where
  "md4_f x y z = (x AND y) OR (NOT x AND z)"

definition md4_g :: "u32 \<Rightarrow> u32 \<Rightarrow> u32 \<Rightarrow> u32" where
  "md4_g x y z = (x AND y) OR (x AND z) OR (y AND z)"

definition md4_h :: "u32 \<Rightarrow> u32 \<Rightarrow> u32 \<Rightarrow> u32" where
  "md4_h x y z = x XOR y XOR z"

definition ROUND2 :: u32 where "ROUND2 = 0x5A827999"
definition ROUND3 :: u32 where "ROUND3 = 0x6ED9EBA1"

definition ORDER :: "nat list" where
  "ORDER = [0, 8, 4, 12, 2, 10, 6, 14, 1, 9, 5, 13, 3, 11, 7, 15]"

definition md4_round1 :: "u32 list \<Rightarrow> md4_state \<Rightarrow> nat \<Rightarrow> md4_state" where
  "md4_round1 x = (\<lambda>(a, b, c, d) i.
     let k = i * 4;
         a = word_rotl 3 (a + md4_f b c d + x ! k);
         d = word_rotl 7 (d + md4_f a b c + x ! (k + 1));
         c = word_rotl 11 (c + md4_f d a b + x ! (k + 2));
         b = word_rotl 19 (b + md4_f c d a + x ! (k + 3))
     in (a, b, c, d))"

definition md4_round2 :: "u32 list \<Rightarrow> md4_state \<Rightarrow> nat \<Rightarrow> md4_state" where
  "md4_round2 x = (\<lambda>(a, b, c, d) i.
     let a = word_rotl 3 (a + md4_g b c d + x ! i + ROUND2);
         d = word_rotl 5 (d + md4_g a b c + x ! (i + 4) + ROUND2);
         c = word_rotl 9 (c + md4_g d a b + x ! (i + 8) + ROUND2);
         b = word_rotl 13 (b + md4_g c d a + x ! (i + 12) + ROUND2)
     in (a, b, c, d))"

definition md4_round3 :: "u32 list \<Rightarrow> md4_state \<Rightarrow> nat \<Rightarrow> md4_state" where
  "md4_round3 x = (\<lambda>(a, b, c, d) i.
     let k = i * 4;
         a = word_rotl 3 (a + md4_h b c d + x ! (ORDER ! k) + ROUND3);
         d = word_rotl 9 (d + md4_h a b c + x ! (ORDER ! (k + 1)) + ROUND3);
         c = word_rotl 11 (c + md4_h d a b + x ! (ORDER ! (k + 2)) + ROUND3);
         b = word_rotl 15 (b + md4_h c d a + x ! (ORDER ! (k + 3)) + ROUND3)
     in (a, b, c, d))"

definition md4_compress :: "md4_state \<Rightarrow> u32 list \<Rightarrow> md4_state" where
  "md4_compress state x =
     (let r1 = foldl (md4_round1 x) state [0, 1, 2, 3];
          r2 = foldl (md4_round2 x) r1 [0, 1, 2, 3];
          r3 = foldl (md4_round3 x) r2 [0, 1, 2, 3]
      in case (state, r3) of ((s0, s1, s2, s3), (a, b, c, d)) \<Rightarrow> (s0 + a, s1 + b, s2 + c, s3 + d))"

text \<open>\<open>chunks_exact(n)\<close>: the whole chunks; a shorter remainder is left out.\<close>

function chunks_exact :: "nat \<Rightarrow> 'a list \<Rightarrow> 'a list list" where
  "chunks_exact n xs =
     (if n = 0 \<or> length xs < n then [] else take n xs # chunks_exact n (drop n xs))"
  by auto

termination by (relation "measure (length \<circ> snd)") auto

declare chunks_exact.simps [simp del]

definition zeros_to_56 :: "nat \<Rightarrow> nat" where
  "zeros_to_56 n = (if n mod 64 \<le> 56 then 56 - n mod 64 else 120 - n mod 64)"

definition md4_padded :: "u8 list \<Rightarrow> u8 list" where
  "md4_padded data =
     (let bit_len = (of_nat (length data) :: u64) * 8;
          marked = data @ [0x80]
      in marked @ replicate (zeros_to_56 (length marked)) 0 @ put_u64_le bit_len)"

definition md4 :: "u8 list \<Rightarrow> u8 list" where
  "md4 data =
     (let state = (0x67452301, 0xEFCDAB89, 0x98BADCFE, 0x10325476);
          blocks = map (\<lambda>chunk. map u32_from_le (chunks_exact 4 chunk)) (chunks_exact 64 (md4_padded data))
      in case foldl md4_compress state blocks of
           (a, b, c, d) \<Rightarrow> put_u32_le a @ put_u32_le b @ put_u32_le c @ put_u32_le d)"

text \<open>
  The padding loop appends zeros while the length is not 56 modulo 64; \<open>zeros_to_56\<close> is how
  often it runs, the least number that gets there.
\<close>

lemma zeros_to_56_least:
  "(n + zeros_to_56 n) mod 64 = 56" "k < zeros_to_56 n \<Longrightarrow> (n + k) mod 64 \<noteq> 56"
proof -
  have split: "(n + z) mod 64 = (n mod 64 + z) mod 64" for z by (simp add: mod_add_left_eq)
  have m: "n mod 64 < 64" by simp
  then have "n mod 64 + zeros_to_56 n = 56 \<or> n mod 64 + zeros_to_56 n = 120"
    by (auto simp: zeros_to_56_def)
  then show "(n + zeros_to_56 n) mod 64 = 56" unfolding split by auto
  assume k: "k < zeros_to_56 n"
  consider "n mod 64 + k < 56" | "56 < n mod 64 + k" "n mod 64 + k < 64"
    | "64 \<le> n mod 64 + k" "n mod 64 + k < 120"
    using k m by (auto simp: zeros_to_56_def split: if_splits) linarith
  then show "(n + k) mod 64 \<noteq> 56"
  proof cases
    case 3
    then have "(n mod 64 + k) mod 64 = n mod 64 + k - 64" by (simp add: le_mod_geq)
    with 3 show ?thesis unfolding split by linarith
  qed (auto simp: split)
qed

lemma length_md4_padded: "length (md4_padded data) mod 64 = 0"
proof -
  let ?n = "length data + 1"
  have "length (md4_padded data) = (?n + zeros_to_56 ?n) + 8"
    by (simp add: md4_padded_def Let_def)
  then have "length (md4_padded data) mod 64 = (((?n + zeros_to_56 ?n) mod 64) + 8) mod 64"
    by (simp only: mod_add_left_eq)
  then show ?thesis by (simp add: zeros_to_56_least(1) [of ?n, simplified])
qed

lemma length_md4 [simp]: "length (md4 data) = 16"
  by (simp add: md4_def Let_def split: prod.splits)

subsection \<open>RFC 1320\<close>

text \<open>
  The specification writes a block as forty-eight steps \<open>[ABCD k s]\<close>, the four registers
  changing place after each: the table of word index and shift per step, with the round's
  function and constant.
\<close>

definition rfc_step ::
  "(u32 \<Rightarrow> u32 \<Rightarrow> u32 \<Rightarrow> u32) \<Rightarrow> u32 \<Rightarrow> u32 list \<Rightarrow> md4_state \<Rightarrow> nat \<times> nat \<Rightarrow> md4_state" where
  "rfc_step fn const x = (\<lambda>(a, b, c, d) (k, s). (d, word_rotl s (a + fn b c d + x ! k + const), b, c))"

definition rfc_round1 :: "(nat \<times> nat) list" where
  "rfc_round1 = [(0, 3), (1, 7), (2, 11), (3, 19), (4, 3), (5, 7), (6, 11), (7, 19),
     (8, 3), (9, 7), (10, 11), (11, 19), (12, 3), (13, 7), (14, 11), (15, 19)]"

definition rfc_round2 :: "(nat \<times> nat) list" where
  "rfc_round2 = [(0, 3), (4, 5), (8, 9), (12, 13), (1, 3), (5, 5), (9, 9), (13, 13),
     (2, 3), (6, 5), (10, 9), (14, 13), (3, 3), (7, 5), (11, 9), (15, 13)]"

definition rfc_round3 :: "(nat \<times> nat) list" where
  "rfc_round3 = [(0, 3), (8, 9), (4, 11), (12, 15), (2, 3), (10, 9), (6, 11), (14, 15),
     (1, 3), (9, 9), (5, 11), (13, 15), (3, 3), (11, 9), (7, 11), (15, 15)]"

definition rfc_block :: "u32 list \<Rightarrow> md4_state \<Rightarrow> md4_state" where
  "rfc_block x s = foldl (rfc_step md4_h 0x6ED9EBA1 x)
     (foldl (rfc_step md4_g 0x5A827999 x) (foldl (rfc_step md4_f 0 x) s rfc_round1) rfc_round2) rfc_round3"

lemma md4_rounds:
  "md4_round1 x s i = foldl (rfc_step md4_f 0 x) s [(i * 4, 3), (i * 4 + 1, 7), (i * 4 + 2, 11), (i * 4 + 3, 19)]"
  "md4_round2 x s i = foldl (rfc_step md4_g 0x5A827999 x) s [(i, 3), (i + 4, 5), (i + 8, 9), (i + 12, 13)]"
  "md4_round3 x s i = foldl (rfc_step md4_h 0x6ED9EBA1 x) s
     [(ORDER ! (i * 4), 3), (ORDER ! (i * 4 + 1), 9), (ORDER ! (i * 4 + 2), 11), (ORDER ! (i * 4 + 3), 15)]"
  by (cases s; simp add: md4_round1_def md4_round2_def md4_round3_def rfc_step_def ROUND2_def ROUND3_def Let_def)+

lemma md4_compress_rfc:
  "md4_compress s x = (case (s, rfc_block x s) of ((s0, s1, s2, s3), (a, b, c, d)) \<Rightarrow> (s0 + a, s1 + b, s2 + c, s3 + d))"
proof -
  have "foldl (md4_round1 x) t [0, 1, 2, 3] = foldl (rfc_step md4_f 0 x) t rfc_round1" for t
    unfolding foldl.simps md4_rounds(1) rfc_round1_def by (simp add: numeral_2_eq_2 numeral_3_eq_3)
  moreover have "foldl (md4_round2 x) t [0, 1, 2, 3] = foldl (rfc_step md4_g 0x5A827999 x) t rfc_round2" for t
    unfolding foldl.simps md4_rounds(2) rfc_round2_def by (simp del: One_nat_def)
  moreover have "foldl (md4_round3 x) t [0, 1, 2, 3] = foldl (rfc_step md4_h 0x6ED9EBA1 x) t rfc_round3" for t
    unfolding foldl.simps md4_rounds(3) rfc_round3_def by (simp add: ORDER_def del: One_nat_def)
  ultimately show ?thesis unfolding md4_compress_def rfc_block_def Let_def by simp
qed

section \<open>RC4\<close>

record rc4 =
  rc_s :: "u8 list"
  rc_i :: u8
  rc_j :: u8

definition swap_at :: "nat \<Rightarrow> nat \<Rightarrow> 'a list \<Rightarrow> 'a list" where
  "swap_at i j xs = xs[i := xs ! j, j := xs ! i]"

primrec key_schedule :: "u8 list \<Rightarrow> nat list \<Rightarrow> u8 list \<Rightarrow> u8 \<Rightarrow> u8 list" where
  "key_schedule key [] s j = s"
| "key_schedule key (i # is) s j =
     (let j' = j + s ! i + key ! (i mod length key)
      in key_schedule key is (swap_at i (unat j') s) j')"

definition rc4_new :: "u8 list \<Rightarrow> rc4" where
  "rc4_new key =
     (let s = map of_nat [0 ..< 256]
      in \<lparr>rc_s = (if key \<noteq> [] then key_schedule key [0 ..< 256] s 0 else s), rc_i = 0, rc_j = 0\<rparr>)"

definition rc4_next :: "rc4 \<Rightarrow> u8 \<times> rc4" where
  "rc4_next st =
     (let i = rc_i st + 1;
          j = rc_j st + rc_s st ! unat i;
          s = swap_at (unat i) (unat j) (rc_s st)
      in (s ! unat (s ! unat i + s ! unat j), \<lparr>rc_s = s, rc_i = i, rc_j = j\<rparr>))"

primrec rc4_apply :: "u8 list \<Rightarrow> rc4 \<Rightarrow> u8 list \<times> rc4" where
  "rc4_apply [] st = ([], st)"
| "rc4_apply (b # bs) st =
     (case rc4_next st of (k, st') \<Rightarrow>
      case rc4_apply bs st' of (out, st'') \<Rightarrow> ((b XOR k) # out, st''))"

text \<open>
  The state is always a permutation of the 256 bytes, so no index is out of range; applying
  the keystream is undone by applying it again from the same state, and a message applied in
  two parts gives the parts.
\<close>

definition rc4_ok :: "rc4 \<Rightarrow> bool" where
  "rc4_ok st \<longleftrightarrow> length (rc_s st) = 256 \<and> distinct (rc_s st)"

lemma swap_at_permutes:
  assumes "i < length xs" and "j < length xs"
  shows "length (swap_at i j xs) = length xs" "distinct (swap_at i j xs) \<longleftrightarrow> distinct xs"
  using assms by (simp_all add: swap_at_def)

lemma unat_u8 [simp]: "unat (b :: u8) < 256"
  using unsigned_less [of b, where ?'a = nat] by simp

lemma key_schedule_ok:
  "length s = 256 \<Longrightarrow> distinct s \<Longrightarrow> set is \<subseteq> {..<256}
    \<Longrightarrow> length (key_schedule key is s j) = 256 \<and> distinct (key_schedule key is s j)"
  by (induction "is" arbitrary: s j) (simp_all add: Let_def swap_at_permutes)

lemma rc4_new_ok: "rc4_ok (rc4_new key)"
proof -
  have "inj_on (of_nat :: nat \<Rightarrow> u8) {0..<256}"
    by (rule inj_onI) (auto dest!: arg_cong [where f = unat] simp: unat_of_nat take_bit_nat_eq_self)
  then have "distinct (map (of_nat :: nat \<Rightarrow> u8) [0 ..< 256])" by (simp add: distinct_map)
  then show ?thesis
    unfolding rc4_ok_def rc4_new_def Let_def
    using key_schedule_ok [of "map of_nat [0 ..< 256]" "[0 ..< 256]" key 0] by (auto simp: lessThan_atLeast0 simp del: upt_rec_numeral)
qed

lemma rc4_next_ok: "rc4_ok st \<Longrightarrow> rc4_next st = (k, st') \<Longrightarrow> rc4_ok st'"
  by (auto simp: rc4_ok_def rc4_next_def Let_def swap_at_permutes)

lemma rc4_apply_ok: "rc4_ok st \<Longrightarrow> rc4_apply bs st = (out, st') \<Longrightarrow> rc4_ok st'"
  by (induction bs arbitrary: st out) (auto split: prod.splits dest: rc4_next_ok)

lemma length_rc4_apply [simp]: "length (fst (rc4_apply bs st)) = length bs"
  by (induction bs arbitrary: st) (simp_all add: case_prod_unfold)

lemma rc4_apply_twice: "rc4_apply bs st = (out, st') \<Longrightarrow> rc4_apply out st = (bs, st')"
  by (induction bs arbitrary: st out) (auto split: prod.splits simp: xor.assoc)

lemma rc4_apply_append:
  "rc4_apply (xs @ ys) st =
     (case rc4_apply xs st of (a, st1) \<Rightarrow> case rc4_apply ys st1 of (b, st2) \<Rightarrow> (a @ b, st2))"
  by (induction xs arbitrary: st) (auto split: prod.splits)

end
