(* ===== verification/Der.thy ===== *)
theory Der
  imports Bytes Proto_Error
begin

text \<open>
  The DER subset of CredSSP, \<open>crates/remoter-proto-rdp/src/credssp/der.rs\<close>: the encoder of
  tag-length-value triples and the reader that takes them apart again. A \<open>usize\<close> is 64 bits
  wide; a buffer is a byte list, and a value of a length is the \<open>nat\<close> it has. An operation of
  the reader that fails leaves its position where it was, so only a success returns a reader.
\<close>

unbundle bit_operations_syntax

section \<open>Encoding\<close>

definition TAG_INTEGER :: u8 where "TAG_INTEGER = 0x02"
definition TAG_OCTET_STRING :: u8 where "TAG_OCTET_STRING = 0x04"
definition TAG_SEQUENCE :: u8 where "TAG_SEQUENCE = 0x30"

definition context_tag :: "u8 \<Rightarrow> u8" where
  "context_tag number = 0xA0 OR (number AND 0x1F)"

definition der_length :: "nat \<Rightarrow> u8 list" where
  "der_length n =
     (if n < 0x80 then [of_nat n]
      else
        let bytes = u64_to_be (of_nat n);
            first = (case position (\<lambda>b. b \<noteq> 0) bytes of Some i \<Rightarrow> i | None \<Rightarrow> length bytes - 1);
            significant = drop first bytes
        in (0x80 OR of_nat (length significant)) # significant)"

definition tlv :: "u8 \<Rightarrow> u8 list \<Rightarrow> u8 list" where
  "tlv tag content = tag # der_length (length content) @ content"

definition integer_content :: "u32 \<Rightarrow> u8 list" where
  "integer_content v =
     (let bytes = u32_to_be v;
          first = (case position (\<lambda>b. b \<noteq> 0) bytes of Some i \<Rightarrow> i | None \<Rightarrow> 3)
      in (if bytes ! first AND 0x80 \<noteq> 0 then [0] else []) @ drop first bytes)"

definition der_integer :: "u32 \<Rightarrow> u8 list" where
  "der_integer v = tlv TAG_INTEGER (integer_content v)"

definition octet_string :: "u8 list \<Rightarrow> u8 list" where
  "octet_string v = tlv TAG_OCTET_STRING v"

definition der_sequence :: "u8 list \<Rightarrow> u8 list" where
  "der_sequence members = tlv TAG_SEQUENCE members"

definition tagged :: "u8 \<Rightarrow> u8 list \<Rightarrow> u8 list" where
  "tagged number inner = tlv (context_tag number) inner"

section \<open>Reading\<close>

record reader =
  rd_bytes :: "u8 list"
  rd_position :: nat

definition reader_new :: "u8 list \<Rightarrow> reader" where
  "reader_new bytes = \<lparr>rd_bytes = bytes, rd_position = 0\<rparr>"

definition reader_is_empty :: "reader \<Rightarrow> bool" where
  "reader_is_empty r \<longleftrightarrow> rd_position r \<ge> length (rd_bytes r)"

definition peek_tag :: "reader \<Rightarrow> u8 option" where
  "peek_tag r = get_at (rd_position r) (rd_bytes r)"

definition violation :: "string \<Rightarrow> protocol_error" where
  "violation detail = ProtocolViolation (lit detail)"

definition bad :: protocol_error where
  "bad = violation ''the server sent a malformed CredSSP structure''"

text \<open>The length octets after the first: \<open>checked_shl(8)\<close> on 64 bits never fails.\<close>

definition shift_in :: "'a::len word \<Rightarrow> u8 \<Rightarrow> 'a word" where
  "shift_in v b = push_bit 8 v OR ucast b"

definition read_length :: "u8 list \<Rightarrow> nat \<Rightarrow> (protocol_error, nat \<times> nat) result" where
  "read_length bytes cursor =
     and_then (ok_or bad (get_at cursor bytes)) (\<lambda>first.
       if first < 0x80 then Inr (unat first, cursor + 1)
       else if first = 0x80 then Inl bad
       else
         let count = unat (first AND 0x7F) in
         if count = 0 \<or> count > 8 then Inl bad
         else
           and_then (ok_or bad (checked_add (cursor + 1) count)) (\<lambda>stop.
           and_then (ok_or bad (get_slice (cursor + 1) stop bytes)) (\<lambda>slice.
             Inr (unat (foldl shift_in (0 :: u64) slice), cursor + 1 + count))))"

definition read_any :: "reader \<Rightarrow> (protocol_error, (u8 \<times> u8 list) \<times> reader) result" where
  "read_any r =
     and_then (ok_or bad (peek_tag r)) (\<lambda>tag.
     and_then (read_length (rd_bytes r) (rd_position r + 1)) (\<lambda>(len, cursor).
     and_then (ok_or bad (checked_add cursor len)) (\<lambda>stop.
     and_then (ok_or bad (get_slice cursor stop (rd_bytes r))) (\<lambda>content.
       Inr ((tag, content), r\<lparr>rd_position := stop\<rparr>)))))"

definition expect :: "u8 \<Rightarrow> reader \<Rightarrow> (protocol_error, u8 list \<times> reader) result" where
  "expect tag r =
     and_then (ok_or bad (peek_tag r)) (\<lambda>found.
       if found \<noteq> tag then Inl bad
       else and_then (read_any r) (\<lambda>((_, content), r'). Inr (content, r')))"

definition skip :: "reader \<Rightarrow> (protocol_error, reader) result" where
  "skip r = and_then (read_any r) (\<lambda>(_, r'). Inr r')"

definition der_read_u32 :: "u8 list \<Rightarrow> (protocol_error, u32) result" where
  "der_read_u32 content =
     (let trimmed = (case content of b # rest \<Rightarrow> if b = 0 then rest else content | [] \<Rightarrow> content) in
      if trimmed = [] then Inr 0
      else if length trimmed > 4 then Inl bad
      else Inr (foldl shift_in 0 trimmed))"

section \<open>Big-endian values\<close>

lemma le_int_append: "le_int (xs @ ys) = le_int xs + 256 ^ length xs * le_int ys"
  by (induction xs) (simp_all add: algebra_simps)

lemma shift_in_sum: "shift_in v b = word_of_int (uint v * 256 + uint b)"
proof -
  have "push_bit 8 v AND ucast b = 0"
    by (rule bit_word_eqI) (auto simp: bit_simps dest: bit_imp_le_length)
  then have "shift_in v b = push_bit 8 v + ucast b"
    using word_plus_and_or [of "push_bit 8 v" "ucast b"] by (simp add: shift_in_def)
  also have "push_bit 8 v = word_of_int (uint v * 256)"
    by (simp add: push_bit_eq_mult)
  also have "ucast b = (word_of_int (uint b) :: 'a word)" by simp
  finally show ?thesis by simp
qed

lemma uint_shift_in:
  fixes v :: "'a::len word"
  assumes "uint v * 256 + 255 < 2 ^ LENGTH('a)"
  shows "uint (shift_in v b) = uint v * 256 + uint b"
proof -
  have "uint v * 256 + uint b < 2 ^ LENGTH('a)" "0 \<le> uint v * 256 + uint b"
    using assms uint_u8_range [of b] uint_ge_0 [of v] by linarith+
  then show ?thesis by (simp only: shift_in_sum uint_word_of_int mod_pos_pos_trivial)
qed

lemma foldl_shift_in:
  assumes "uint v * 256 ^ length bs + 256 ^ length bs \<le> 2 ^ LENGTH('a)"
  shows "uint (foldl shift_in (v :: 'a::len word) bs) = uint v * 256 ^ length bs + le_int (rev bs)"
  using assms
proof (induction bs arbitrary: v)
  case Nil
  then show ?case by simp
next
  case (Cons b bs)
  have pow: "(1 :: int) \<le> 256 ^ length bs" by simp
  have "(uint v * 256 + 256) * 1 \<le> (uint v * 256 + 256) * 256 ^ length bs"
    using pow uint_ge_0 [of v] by (intro mult_left_mono) auto
  then have "uint v * 256 + 255 < 2 ^ LENGTH('a)"
    using Cons.prems by (simp add: algebra_simps)
  from uint_shift_in [OF this] have step: "uint (shift_in v b) = uint v * 256 + uint b" .
  have "uint (shift_in v b) * 256 ^ length bs + 256 ^ length bs
      = (uint v * 256 + uint b + 1) * 256 ^ length bs" by (simp add: step algebra_simps)
  also have "\<dots> \<le> (uint v * 256 + 256) * 256 ^ length bs"
    using uint_u8_range [of b] by (intro mult_right_mono) auto
  also have "\<dots> \<le> 2 ^ LENGTH('a)" using Cons.prems by (simp add: algebra_simps)
  finally show ?case using Cons.IH [of "shift_in v b"]
    by (simp add: step le_int_append algebra_simps)
qed

lemma foldl_shift_in_0:
  assumes "(256 :: int) ^ length bs \<le> 2 ^ LENGTH('a)"
  shows "uint (foldl shift_in (0 :: 'a::len word) bs) = le_int (rev bs)"
  using foldl_shift_in [of 0 bs] assms by simp

text \<open>Leading zeros do not change a big-endian value.\<close>

lemma le_int_zeros: "set xs \<subseteq> {0} \<Longrightarrow> le_int xs = 0"
  by (induction xs) auto

lemma le_int_strip: "le_int (rev (dropWhile (\<lambda>b. b = 0) bs)) = le_int (rev bs)"
  by (induction bs) (auto simp: le_int_append)

section \<open>The length field\<close>

lemma u64_to_be_value: "int n < usize_bound \<Longrightarrow> le_int (rev (u64_to_be (of_nat n))) = int n"
  by (simp add: u64_to_be_def uint_nat unat_of_nat le_int_le_bytes usize_bound_def nat_less_iff take_bit_nat_eq_self)

lemma der_length_long:
  assumes "0x80 \<le> n" and "int n < usize_bound"
  obtains bs where "der_length n = (0x80 OR of_nat (length bs)) # bs" "0 < length bs" "length bs \<le> 8"
    "le_int (rev bs) = int n" "hd bs \<noteq> 0"
proof -
  let ?bytes = "u64_to_be (of_nat n)"
  have val: "le_int (rev ?bytes) = int n" by (rule u64_to_be_value [OF assms(2)])
  have "position (\<lambda>b. b \<noteq> 0) ?bytes \<noteq> None"
  proof
    assume "position (\<lambda>b. b \<noteq> 0) ?bytes = None"
    then have "set (rev ?bytes) \<subseteq> {0}" by (auto simp: position_None_iff)
    with val assms(1) show False by (simp add: le_int_zeros)
  qed
  then obtain i where i: "position (\<lambda>b. b \<noteq> 0) ?bytes = Some i" by auto
  note p = position_dropWhile [OF i]
  have "hd (drop i ?bytes) \<noteq> 0" using p by (metis hd_drop_conv_nth)
  moreover have "le_int (rev (drop i ?bytes)) = int n" using p val le_int_strip [of ?bytes] by simp
  moreover have "der_length n = (0x80 OR of_nat (length (drop i ?bytes))) # drop i ?bytes"
    using assms(1) by (simp add: der_length_def i Let_def del: length_drop)
  moreover have "0 < length (drop i ?bytes)" "length (drop i ?bytes) \<le> 8"
    using p [THEN conjunct2, THEN conjunct1] by simp_all
  ultimately show thesis by (intro that)
qed

lemma first_octet:
  assumes "0 < k" and "k \<le> 8"
  shows "\<not> (0x80 OR of_nat k :: u8) < 0x80" "(0x80 OR of_nat k :: u8) \<noteq> 0x80"
    "unat ((0x80 OR of_nat k :: u8) AND 0x7F) = k"
proof -
  have "k \<in> {1, 2, 3, 4, 5, 6, 7, 8}" using assms by auto
  then show "\<not> (0x80 OR of_nat k :: u8) < 0x80" "(0x80 OR of_nat k :: u8) \<noteq> 0x80"
    "unat ((0x80 OR of_nat k :: u8) AND 0x7F) = k" by auto
qed

lemma read_der_length:
  assumes "int (length pre + 9) + int n < usize_bound"
  shows "read_length (pre @ der_length n @ rest) (length pre) = Inr (n, length pre + length (der_length n))"
proof (cases "n < 0x80")
  case True
  then have "unat (of_nat n :: u8) = n" by (simp add: unat_of_nat take_bit_nat_eq_self)
  moreover from this True have "(of_nat n :: u8) < 0x80" by (simp add: word_less_nat_alt)
  ultimately show ?thesis using True by (simp add: read_length_def der_length_def get_at_def nth_append)
next
  case False
  with assms obtain bs where bs: "der_length n = (0x80 OR of_nat (length bs)) # bs" "0 < length bs"
    "length bs \<le> 8" "le_int (rev bs) = int n"
    by (auto intro: der_length_long [of n])
  have "(256 :: int) ^ length bs \<le> 256 ^ 8" using bs(3) by (intro power_increasing) auto
  then have "uint (foldl shift_in (0 :: u64) bs) = int n" using foldl_shift_in_0 [of bs, where ?'a = 64] bs(4) by simp
  then have "unat (foldl shift_in (0 :: u64) bs) = n" by (simp add: unat_eq_nat_uint)
  moreover have "checked_add (Suc (length pre)) (length bs) = Some (Suc (length pre) + length bs)"
    using assms bs(3) by (simp add: checked_add_def)
  moreover have "get_slice (Suc (length pre)) (Suc (length pre) + length bs)
      (pre @ (0x80 OR of_nat (length bs)) # bs @ rest) = Some bs"
    by (simp add: get_slice_def)
  ultimately show ?thesis
    using first_octet [OF bs(2,3)] bs(2,3)
    by (simp add: read_length_def bs(1) get_at_def nth_append Let_def)
qed

lemma read_any_tlv:
  assumes "int (length pre + 10) + int (length content) < usize_bound"
  shows "read_any \<lparr>rd_bytes = pre @ tlv tag content @ rest, rd_position = length pre\<rparr>
    = Inr ((tag, content), \<lparr>rd_bytes = pre @ tlv tag content @ rest, rd_position = length pre + length (tlv tag content)\<rparr>)"
proof -
  let ?len = "der_length (length content)"
  have "read_length ((pre @ [tag]) @ ?len @ content @ rest) (length (pre @ [tag]))
      = Inr (length content, length (pre @ [tag]) + length ?len)"
    using assms by (intro read_der_length) simp
  moreover have "length ?len \<le> 9"
    by (cases "length content < 0x80") (use der_length_long [of "length content"] assms in \<open>force simp: der_length_def\<close>)+
  ultimately show ?thesis
    using assms
    by (simp add: read_any_def peek_tag_def get_at_def nth_append tlv_def checked_add_def get_slice_def)
qed

text \<open>So a value written by the encoder is a prefix the reader takes, whatever follows.\<close>

definition read_tlv :: "u8 list \<Rightarrow> (protocol_error, (u8 \<times> u8 list) \<times> u8 list) result" where
  "read_tlv bytes =
     and_then (read_any (reader_new bytes)) (\<lambda>(v, r). Inr (v, drop (rd_position r) (rd_bytes r)))"

interpretation der: prefix_codec "\<lambda>(tag, content). tlv tag content" read_tlv
  "\<lambda>(tag, content). int (length content) + 10 < usize_bound"
proof unfold_locales
  fix x :: "u8 \<times> u8 list" and rest
  assume "case x of (tag, content) \<Rightarrow> int (length content) + 10 < usize_bound"
  then show "read_tlv ((case x of (tag, content) \<Rightarrow> tlv tag content) @ rest) = Inr (x, rest)"
    using read_any_tlv [of "[]" "snd x" "fst x" rest]
    by (cases x) (simp add: read_tlv_def reader_new_def)
qed

lemma read_length_bounds:
  "read_length bytes cursor = Inr (n, cursor') \<Longrightarrow> cursor < cursor' \<and> cursor' \<le> length bytes"
  by (auto simp: read_length_def result_simps get_at_def get_slice_Some_iff checked_add_Some Let_def split: if_splits)

lemma read_any_advances:
  assumes "read_any r = Inr ((tag, content), r')"
  shows "rd_bytes r' = rd_bytes r" "rd_position r < rd_position r'" "rd_position r' \<le> length (rd_bytes r)"
    "length content < rd_position r' - rd_position r"
    "drop (rd_position r) (rd_bytes r) = tag # take (rd_position r' - rd_position r - 1 - length content)
        (drop (rd_position r + 1) (rd_bytes r)) @ content @ drop (rd_position r') (rd_bytes r)"
proof -
  let ?p = "rd_position r" and ?bs = "rd_bytes r"
  from assms obtain len cursor where
    tag: "peek_tag r = Some tag" and len: "read_length ?bs (?p + 1) = Inr (len, cursor)"
    and c: "get_slice cursor (cursor + len) ?bs = Some content" and r': "r' = r\<lparr>rd_position := cursor + len\<rparr>"
    by (auto simp: read_any_def result_simps checked_add_Some)
  have b: "?p + 1 < cursor" "cursor + len \<le> length ?bs" "content = take len (drop cursor ?bs)" "length content = len"
    using read_length_bounds [OF len] c by (auto simp: get_slice_Some_iff)
  show "rd_bytes r' = ?bs" "?p < rd_position r'" "rd_position r' \<le> length ?bs"
    "length content < rd_position r' - ?p"
    using b by (simp_all add: r')
  have "drop ?p ?bs = tag # drop (?p + 1) ?bs"
    using tag Cons_nth_drop_Suc [of ?p ?bs] by (simp add: peek_tag_def get_at_def split: if_splits)
  moreover have "drop (?p + 1) ?bs = take (cursor - (?p + 1)) (drop (?p + 1) ?bs) @ drop cursor ?bs"
    using b(1) by (metis append_take_drop_id drop_drop le_add_diff_inverse2 less_imp_le)
  moreover have "drop cursor ?bs = content @ drop (cursor + len) ?bs"
    using b(3) by (metis add.commute append_take_drop_id drop_drop)
  moreover have "rd_position r' - ?p - 1 - length content = cursor - (?p + 1)" "rd_position r' = cursor + len"
    using b by (simp_all add: r')
  ultimately show "drop ?p ?bs = tag # take (rd_position r' - ?p - 1 - length content) (drop (?p + 1) ?bs)
      @ content @ drop (rd_position r') ?bs" by metis
qed

section \<open>Integers\<close>

lemma u32_to_be_value: "le_int (rev (u32_to_be v)) = uint v"
  using uint_lt2p [of v] by (simp add: u32_to_be_def le_int_le_bytes)

lemma read_integer_content: "der_read_u32 (integer_content v) = Inr v"
proof (cases "position (\<lambda>b. b \<noteq> 0) (u32_to_be v)")
  case None
  then have zero: "set (u32_to_be v) \<subseteq> {0}" by (auto simp: position_None_iff)
  then have "uint v = 0" using u32_to_be_value [of v] le_int_zeros [of "rev (u32_to_be v)"] by simp
  then have v: "v = 0" by (simp add: unsigned_eq_0_iff)
  have "u32_to_be v = [0, 0, 0, 0]" by (simp add: v u32_to_be_def eval_nat_numeral)
  then show ?thesis by (simp add: integer_content_def der_read_u32_def v)
next
  case (Some i)
  let ?ds = "drop i (u32_to_be v)"
  note p = position_dropWhile [OF Some]
  have i: "i < 4" using p [THEN conjunct2, THEN conjunct1] by simp
  have ds: "?ds \<noteq> []" "hd ?ds \<noteq> 0" "length ?ds \<le> 4"
    using p [THEN conjunct2] i by (simp_all add: hd_drop_conv_nth)
  have val: "le_int (rev ?ds) = uint v" using p le_int_strip [of "u32_to_be v"] u32_to_be_value [of v] by simp
  have "(256 :: int) ^ length ?ds \<le> 256 ^ 4" using ds(3) by (intro power_increasing) auto
  then have "uint (foldl shift_in (0 :: u32) ?ds) = uint v"
    using foldl_shift_in_0 [of ?ds, where ?'a = 32] val by (simp del: length_drop)
  then have "foldl shift_in (0 :: u32) ?ds = v" by (rule word_uint_eqI)
  moreover obtain b bs where "?ds = b # bs" "b \<noteq> 0" using ds by (cases ?ds) auto
  ultimately show ?thesis using ds(3) by (simp add: integer_content_def Some der_read_u32_def Let_def)
qed

lemma length_integer_content: "length (integer_content v) \<le> 5"
proof -
  have "length (pad @ drop i (u32_to_be v)) \<le> 5" if "length pad \<le> 1" for i and pad :: "u8 list"
    using that by simp
  then show ?thesis unfolding integer_content_def Let_def by (simp del: length_append)
qed

lemma expect_tlv:
  assumes "int (length pre + 10) + int (length content) < usize_bound"
  shows "expect tag \<lparr>rd_bytes = pre @ tlv tag content @ rest, rd_position = length pre\<rparr>
    = Inr (content, \<lparr>rd_bytes = pre @ tlv tag content @ rest, rd_position = length pre + length (tlv tag content)\<rparr>)"
  using read_any_tlv [OF assms, of tag rest]
  by (simp add: expect_def peek_tag_def get_at_def nth_append tlv_def)

section \<open>What the reader tolerates\<close>

text \<open>
  Two inputs strict DER forbids are read: an INTEGER without content, as zero, and a length in
  the long form where the short one is mandatory.
\<close>

lemma empty_integer_reads_as_zero: "der_read_u32 [] = Inr 0"
  by (simp add: der_read_u32_def)

lemma overlong_length_is_read:
  "read_tlv [TAG_OCTET_STRING, 0x81, 0x01, b] = Inr ((TAG_OCTET_STRING, [b]), [])
    \<and> tlv TAG_OCTET_STRING [b] = [TAG_OCTET_STRING, 0x01, b]"
proof -
  let ?bytes = "[TAG_OCTET_STRING, 0x81, 0x01, b]"
  have value_is_one: "unat (foldl shift_in (0 :: u64) [0x01]) = 1" by (simp add: shift_in_def)
  have count: "unat (0x81 AND 0x7F :: u8) = 1" by simp
  have parts: "get_slice 2 3 ?bytes = Some [0x01]" "get_slice 3 4 ?bytes = Some [b]"
    "checked_add 2 1 = Some 3" "checked_add 3 1 = Some 4"
    by (simp_all add: get_slice_def checked_add_def usize_bound_def numeral_2_eq_2 numeral_3_eq_3)
  have "read_length ?bytes 1 = Inr (1, 3)"
    unfolding read_length_def using parts value_is_one count
    by (simp add: get_at_def flip: numeral_2_eq_2 numeral_3_eq_3)
  then show ?thesis
    using parts by (simp add: read_tlv_def read_any_def reader_new_def peek_tag_def get_at_def tlv_def der_length_def)
qed

end
