(* ===== verification/Ntlm.thy ===== *)
theory Ntlm
  imports Ntlm_Crypto Der
begin

text \<open>
  The client half of NTLMv2, \<open>crates/remoter-proto-rdp/src/credssp/ntlm.rs\<close>: the three
  messages, the attribute list, the key derivation and the sealing state. The caller's
  randomness and clock are arguments, as in the code. Zeroing of dropped buffers has no
  counterpart.
\<close>

unbundle bit_operations_syntax

section \<open>Constants\<close>

definition ascii :: "string \<Rightarrow> u8 list" where
  "ascii s = map of_char s"

definition NTLM_SIGNATURE :: "u8 list" where "NTLM_SIGNATURE = ascii ''NTLMSSP'' @ [0]"
definition MESSAGE_NEGOTIATE :: u32 where "MESSAGE_NEGOTIATE = 1"
definition MESSAGE_CHALLENGE :: u32 where "MESSAGE_CHALLENGE = 2"
definition MESSAGE_AUTHENTICATE :: u32 where "MESSAGE_AUTHENTICATE = 3"

definition NEGOTIATE_UNICODE :: u32 where "NEGOTIATE_UNICODE = 0x00000001"
definition REQUEST_TARGET :: u32 where "REQUEST_TARGET = 0x00000004"
definition NEGOTIATE_SIGN :: u32 where "NEGOTIATE_SIGN = 0x00000010"
definition NEGOTIATE_SEAL :: u32 where "NEGOTIATE_SEAL = 0x00000020"
definition NEGOTIATE_NTLM :: u32 where "NEGOTIATE_NTLM = 0x00000200"
definition NEGOTIATE_ALWAYS_SIGN :: u32 where "NEGOTIATE_ALWAYS_SIGN = 0x00008000"
definition NEGOTIATE_EXTENDED_SESSIONSECURITY :: u32 where "NEGOTIATE_EXTENDED_SESSIONSECURITY = 0x00080000"
definition NEGOTIATE_TARGET_INFO :: u32 where "NEGOTIATE_TARGET_INFO = 0x00800000"
definition NEGOTIATE_VERSION :: u32 where "NEGOTIATE_VERSION = 0x02000000"
definition NEGOTIATE_128 :: u32 where "NEGOTIATE_128 = 0x20000000"
definition NEGOTIATE_KEY_EXCH :: u32 where "NEGOTIATE_KEY_EXCH = 0x40000000"
definition NEGOTIATE_56 :: u32 where "NEGOTIATE_56 = 0x80000000"

definition CLIENT_FLAGS :: u32 where
  "CLIENT_FLAGS = NEGOTIATE_UNICODE OR REQUEST_TARGET OR NEGOTIATE_SIGN OR NEGOTIATE_SEAL
     OR NEGOTIATE_NTLM OR NEGOTIATE_ALWAYS_SIGN OR NEGOTIATE_EXTENDED_SESSIONSECURITY
     OR NEGOTIATE_TARGET_INFO OR NEGOTIATE_VERSION OR NEGOTIATE_128 OR NEGOTIATE_KEY_EXCH OR NEGOTIATE_56"

definition AV_EOL :: u16 where "AV_EOL = 0x0000"
definition AV_TIMESTAMP :: u16 where "AV_TIMESTAMP = 0x0007"
definition AV_FLAGS :: u16 where "AV_FLAGS = 0x0006"
definition AV_TARGET_NAME :: u16 where "AV_TARGET_NAME = 0x0009"
definition AV_CHANNEL_BINDINGS :: u16 where "AV_CHANNEL_BINDINGS = 0x000A"
definition AV_FLAG_MIC_PRESENT :: u32 where "AV_FLAG_MIC_PRESENT = 0x00000002"

definition SIGNATURE_BYTES :: nat where "SIGNATURE_BYTES = 16"
definition AUTHENTICATE_HEADER_BYTES :: nat where "AUTHENTICATE_HEADER_BYTES = 88"
definition MIC_OFFSET :: nat where "MIC_OFFSET = 72"

section \<open>Sealing\<close>

record ntlm_security =
  ns_client_seal :: rc4
  ns_server_seal :: rc4
  ns_client_sign :: "u8 list"
  ns_server_sign :: "u8 list"
  ns_client_seq :: u32
  ns_server_seq :: u32
  ns_key_exchange :: bool

definition seal_bytes :: "u32 \<Rightarrow> nat" where
  "seal_bytes flags =
     (if flags AND NEGOTIATE_128 \<noteq> 0 then 16 else if flags AND NEGOTIATE_56 \<noteq> 0 then 7 else 5)"

definition security_derive :: "primitives \<Rightarrow> u8 list \<Rightarrow> u32 \<Rightarrow> ntlm_security" where
  "security_derive p session_key flags =
     (let derive_key = (\<lambda>material constant. pr_md5 p (material @ ascii constant @ [0]));
          seal_material = (case get_slice 0 (seal_bytes flags) session_key of
                             Some s \<Rightarrow> s | None \<Rightarrow> session_key);
          client_sign = derive_key session_key ''session key to client-to-server signing key magic constant'';
          server_sign = derive_key session_key ''session key to server-to-client signing key magic constant'';
          client_seal = derive_key seal_material ''session key to client-to-server sealing key magic constant'';
          server_seal = derive_key seal_material ''session key to server-to-client sealing key magic constant''
      in \<lparr>ns_client_seal = rc4_new client_seal, ns_server_seal = rc4_new server_seal,
          ns_client_sign = client_sign, ns_server_sign = server_sign,
          ns_client_seq = 0, ns_server_seq = 0,
          ns_key_exchange = (flags AND NEGOTIATE_KEY_EXCH \<noteq> 0)\<rparr>)"

definition ntlm_sign :: "primitives \<Rightarrow> rc4 \<Rightarrow> u8 list \<Rightarrow> u32 \<Rightarrow> u8 list \<Rightarrow> bool \<Rightarrow> u8 list \<times> rc4" where
  "ntlm_sign p seal signing_key seq message key_exchange =
     (let full = hmac_md5 p signing_key (put_u32_le seq @ message);
          checksum = take 8 full
      in case (if key_exchange then rc4_apply checksum seal else (checksum, seal)) of
           (checksum, seal) \<Rightarrow> (put_u32_le 1 @ checksum @ put_u32_le seq, seal))"

definition security_seal :: "primitives \<Rightarrow> u8 list \<Rightarrow> ntlm_security \<Rightarrow> u8 list \<times> ntlm_security" where
  "security_seal p message s =
     (case rc4_apply message (ns_client_seal s) of (sealed, handle) \<Rightarrow>
      case ntlm_sign p handle (ns_client_sign s) (ns_client_seq s) message (ns_key_exchange s) of
        (signature, handle) \<Rightarrow>
          (signature @ sealed, s\<lparr>ns_client_seal := handle, ns_client_seq := ns_client_seq s + 1\<rparr>))"

definition security_unseal ::
  "primitives \<Rightarrow> u8 list \<Rightarrow> ntlm_security \<Rightarrow> (protocol_error, u8 list) result \<times> ntlm_security" where
  "security_unseal p message s =
     (if length message < SIGNATURE_BYTES
      then (Inl (violation ''the server sent a CredSSP message with no signature''), s)
      else
        let signature = take SIGNATURE_BYTES message; sealed = drop SIGNATURE_BYTES message in
        case rc4_apply sealed (ns_server_seal s) of (plaintext, handle) \<Rightarrow>
        case ntlm_sign p handle (ns_server_sign s) (ns_server_seq s) plaintext (ns_key_exchange s) of
          (expected, handle) \<Rightarrow>
            (if expected = signature then Inr plaintext
             else Inl (violation ''a CredSSP message from the server failed its integrity check''),
             s\<lparr>ns_server_seal := handle, ns_server_seq := ns_server_seq s + 1\<rparr>))"

section \<open>The CHALLENGE\<close>

record challenge_message =
  cm_flags :: u32
  cm_server_challenge :: "u8 list"
  cm_target_info :: "u8 list"
  cm_av_pairs :: "(u16 \<times> u8 list) list"
  cm_timestamp :: "u64 option"

definition ntlm_read_u16 :: "u8 list \<Rightarrow> nat \<Rightarrow> u16 option" where
  "ntlm_read_u16 bytes offset =
     Option.bind (checked_add offset 2) (\<lambda>stop. map_option u16_from_le (get_slice offset stop bytes))"

definition ntlm_read_u32 :: "u8 list \<Rightarrow> nat \<Rightarrow> u32 option" where
  "ntlm_read_u32 bytes offset =
     Option.bind (checked_add offset 4) (\<lambda>stop. map_option u32_from_le (get_slice offset stop bytes))"

definition bad_list :: protocol_error where
  "bad_list = violation ''the server sent a malformed NTLM target info list''"

text \<open>The loop over the list; every round consumes the four bytes of a pair's head at least.\<close>

function av_loop :: "u8 list \<Rightarrow> nat \<Rightarrow> (u16 \<times> u8 list) list \<Rightarrow> (protocol_error, (u16 \<times> u8 list) list) result" where
  "av_loop bytes cursor pairs =
     (if cursor + 4 \<le> length bytes then
        and_then (ok_or bad_list (ntlm_read_u16 bytes cursor)) (\<lambda>i.
        and_then (ok_or bad_list (ntlm_read_u16 bytes (cursor + 2))) (\<lambda>len.
          if i = AV_EOL then Inr pairs
          else
            and_then (ok_or bad_list (checked_add (cursor + 4) (unat len))) (\<lambda>stop.
            and_then (ok_or bad_list (get_slice (cursor + 4) stop bytes)) (\<lambda>v.
              av_loop bytes stop (pairs @ [(i, v)])))))
      else if bytes = [] then Inr pairs else Inl bad_list)"
  by auto

termination
  by (relation "measure (\<lambda>(bytes, cursor, _). length bytes - cursor)")
    (auto simp: result_simps checked_add_Some get_slice_Some_iff)

declare av_loop.simps [simp del]

definition parse_av_pairs :: "u8 list \<Rightarrow> (protocol_error, (u16 \<times> u8 list) list) result" where
  "parse_av_pairs bytes = av_loop bytes 0 []"

fun av_timestamp :: "(u16 \<times> u8 list) list \<Rightarrow> u64 option" where
  "av_timestamp [] = None"
| "av_timestamp ((i, v) # rest) =
     (case (if i = AV_TIMESTAMP then map_option u64_from_le (get_slice 0 8 v) else None) of
        Some t \<Rightarrow> Some t | None \<Rightarrow> av_timestamp rest)"

definition bad_challenge :: protocol_error where
  "bad_challenge = violation ''the server sent a malformed NTLM challenge''"

definition challenge_parse :: "u8 list \<Rightarrow> (protocol_error, challenge_message) result" where
  "challenge_parse bytes =
     (if length bytes < 48 \<or> get_slice 0 8 bytes \<noteq> Some NTLM_SIGNATURE then Inl bad_challenge
      else
        and_then (ok_or bad_challenge (ntlm_read_u32 bytes 8)) (\<lambda>kind.
        if kind \<noteq> MESSAGE_CHALLENGE then Inl bad_challenge
        else
          and_then (ok_or bad_challenge (ntlm_read_u32 bytes 20)) (\<lambda>flags.
          and_then (ok_or bad_challenge (get_slice 24 32 bytes)) (\<lambda>server_challenge.
          and_then (ok_or bad_challenge (ntlm_read_u16 bytes 40)) (\<lambda>info_len.
          and_then (ok_or bad_challenge (ntlm_read_u32 bytes 44)) (\<lambda>info_offset.
          and_then
            (if unat info_len = 0 then Inr []
             else and_then (ok_or bad_challenge (checked_add (unat info_offset) (unat info_len))) (\<lambda>stop.
                    ok_or bad_challenge (get_slice (unat info_offset) stop bytes))) (\<lambda>target_info.
          and_then (parse_av_pairs target_info) (\<lambda>av_pairs.
            Inr \<lparr>cm_flags = flags, cm_server_challenge = server_challenge, cm_target_info = target_info,
                 cm_av_pairs = av_pairs, cm_timestamp = av_timestamp av_pairs\<rparr>))))))))"

section \<open>The client\<close>

record ntlm_client =
  nc_response_key :: "u8 list"
  nc_username :: rstring
  nc_domain :: rstring
  nc_workstation :: rstring
  nc_spn :: rstring
  nc_negotiate :: "u8 list"

text \<open>A password that is not UTF-8 is taken to be UTF-16 already.\<close>

definition wide_password :: "u8 list \<Rightarrow> u8 list" where
  "wide_password password = (case from_utf8 password of Some text \<Rightarrow> utf16le text | None \<Rightarrow> password)"

definition ntowf_v2 :: "primitives \<Rightarrow> rstring \<Rightarrow> rstring \<Rightarrow> u8 list \<Rightarrow> u8 list" where
  "ntowf_v2 p username domain password =
     (let key = md4 (wide_password password);
          identity = utf16le (pr_uppercase p username @ domain)
      in hmac_md5 p key identity)"

definition ntlm_new :: "primitives \<Rightarrow> rstring \<Rightarrow> rstring \<Rightarrow> rstring \<Rightarrow> rstring \<Rightarrow> u8 list \<Rightarrow> ntlm_client" where
  "ntlm_new p username domain workstation spn password =
     \<lparr>nc_response_key = ntowf_v2 p username domain password, nc_username = username, nc_domain = domain,
      nc_workstation = workstation, nc_spn = spn, nc_negotiate = []\<rparr>"

definition version_field :: "u8 list" where
  "version_field = (let build = put_u16_le 19041 in [10, 0, build ! 0, build ! 1, 0, 0, 0, 0x0F])"

definition ntlm_negotiate :: "ntlm_client \<Rightarrow> u8 list \<times> ntlm_client" where
  "ntlm_negotiate c =
     (let out = NTLM_SIGNATURE @ put_u32_le MESSAGE_NEGOTIATE @ put_u32_le CLIENT_FLAGS
                  @ replicate 8 0 @ replicate 8 0 @ version_field
      in (out, c\<lparr>nc_negotiate := out\<rparr>))"

definition saturating_u16 :: "nat \<Rightarrow> u16" where
  "saturating_u16 n = (if n < 0x10000 then of_nat n else - 1)"

definition saturating_u32 :: "nat \<Rightarrow> u32" where
  "saturating_u32 n = (if int n < 0x100000000 then of_nat n else - 1)"

definition push_av :: "u16 \<Rightarrow> u8 list \<Rightarrow> u8 list" where
  "push_av i v = put_u16_le i @ put_u16_le (saturating_u16 (length v)) @ v"

definition echo_av :: "bool \<Rightarrow> u16 \<times> u8 list \<Rightarrow> u8 list" where
  "echo_av mic = (\<lambda>(i, v).
     if i = AV_FLAGS \<and> mic then
       let existing = (case get_slice 0 4 v of Some bs \<Rightarrow> u32_from_le bs | None \<Rightarrow> 0)
       in push_av AV_FLAGS (put_u32_le (existing OR AV_FLAG_MIC_PRESENT))
     else push_av i v)"

definition build_target_info :: "ntlm_client \<Rightarrow> challenge_message \<Rightarrow> bool \<Rightarrow> u8 list" where
  "build_target_info c challenge mic =
     (let wrote_flags = (mic \<and> list_ex (\<lambda>(i, _). i = AV_FLAGS) (cm_av_pairs challenge))
      in concat (map (echo_av mic) (cm_av_pairs challenge))
         @ (if mic \<and> \<not> wrote_flags then push_av AV_FLAGS (put_u32_le AV_FLAG_MIC_PRESENT) else [])
         @ push_av AV_CHANNEL_BINDINGS (replicate 16 0)
         @ push_av AV_TARGET_NAME (utf16le (nc_spn c))
         @ push_av AV_EOL [])"

text \<open>
  One field of the AUTHENTICATE message: the eight descriptor bytes, and the payload and the
  offset after it.
\<close>

definition put_field :: "u8 list \<Rightarrow> u8 list \<times> u8 list \<times> nat \<Rightarrow> u8 list \<times> u8 list \<times> nat" where
  "put_field bytes = (\<lambda>(message, payload, offset).
     let len = saturating_u16 (length bytes)
     in (message @ put_u16_le len @ put_u16_le len @ put_u32_le (saturating_u32 offset),
         payload @ bytes, offset + length bytes))"

definition copy_at :: "nat \<Rightarrow> 'a list \<Rightarrow> 'a list \<Rightarrow> 'a list" where
  "copy_at i new xs =
     (if i + length new \<le> length xs then take i xs @ new @ drop (i + length new) xs else xs)"

definition ntlmv2_temp :: "u64 \<Rightarrow> u8 list \<Rightarrow> u8 list \<Rightarrow> u8 list" where
  "ntlmv2_temp timestamp client_challenge target_info =
     [0x01, 0x01] @ replicate 6 0 @ put_u64_le timestamp @ client_challenge @ replicate 4 0
       @ target_info @ replicate 4 0"

definition authenticate_message ::
  "ntlm_client \<Rightarrow> u32 \<Rightarrow> u8 list \<Rightarrow> u8 list \<Rightarrow> u8 list" where
  "authenticate_message c negotiated nt_response encrypted_session_key =
     (let start = NTLM_SIGNATURE @ put_u32_le MESSAGE_AUTHENTICATE;
          fields = [replicate 24 0, nt_response, utf16le (nc_domain c), utf16le (nc_username c),
                    utf16le (nc_workstation c), encrypted_session_key]
      in case fold put_field fields (start, [], AUTHENTICATE_HEADER_BYTES) of
           (message, payload, _) \<Rightarrow>
             message @ put_u32_le negotiated @ version_field @ replicate SIGNATURE_BYTES 0 @ payload)"

definition ntlm_authenticate ::
  "primitives \<Rightarrow> ntlm_client \<Rightarrow> u8 list \<Rightarrow> u8 list \<Rightarrow> u8 list \<Rightarrow> u64
    \<Rightarrow> (protocol_error, u8 list \<times> ntlm_security) result" where
  "ntlm_authenticate p c challenge client_challenge exported_session_key now_filetime =
     and_then (challenge_parse challenge) (\<lambda>parsed.
       let negotiated = (CLIENT_FLAGS AND cm_flags parsed) OR NEGOTIATE_UNICODE
             OR NEGOTIATE_EXTENDED_SESSIONSECURITY OR NEGOTIATE_NTLM;
           timestamp = (case cm_timestamp parsed of Some t \<Rightarrow> t | None \<Rightarrow> now_filetime);
           target_info = build_target_info c parsed (cm_timestamp parsed \<noteq> None);
           temp = ntlmv2_temp timestamp client_challenge target_info;
           nt_proof = hmac_md5 p (nc_response_key c) (cm_server_challenge parsed @ temp);
           nt_response = nt_proof @ temp;
           key_exchange_key = hmac_md5 p (nc_response_key c) nt_proof;
           (session_key, encrypted_session_key) =
             (if negotiated AND NEGOTIATE_KEY_EXCH \<noteq> 0
              then (exported_session_key, fst (rc4_apply exported_session_key (rc4_new key_exchange_key)))
              else (key_exchange_key, []));
           message = authenticate_message c negotiated nt_response encrypted_session_key;
           mic = hmac_md5 p session_key (nc_negotiate c @ challenge @ message)
       in Inr (copy_at MIC_OFFSET mic message, security_derive p session_key negotiated))"

end
