(* ===== verification/Credssp.thy ===== *)
theory Credssp
  imports Ntlm Host_Key
begin

text \<open>
  The client half of CredSSP, \<open>crates/remoter-proto-rdp/src/credssp/mod.rs\<close>: the \<open>TSRequest\<close>
  messages in both directions, how many bytes of a stream make one, and the exchange that
  sends the credentials only to a server that proved it holds the key of its certificate.
\<close>

unbundle bit_operations_syntax

section \<open>Constants\<close>

definition CLIENT_VERSION :: u32 where "CLIENT_VERSION = 6"
definition NONCE_BINDING_VERSION :: u32 where "NONCE_BINDING_VERSION = 5"
definition NONCE_BYTES :: nat where "NONCE_BYTES = 32"

definition CLIENT_BINDING_LABEL :: "u8 list" where
  "CLIENT_BINDING_LABEL = ascii ''CredSSP Client-To-Server Binding Hash'' @ [0]"

definition SERVER_BINDING_LABEL :: "u8 list" where
  "SERVER_BINDING_LABEL = ascii ''CredSSP Server-To-Client Binding Hash'' @ [0]"

definition CRED_TYPE_PASSWORD :: u32 where "CRED_TYPE_PASSWORD = 1"
definition EARLY_USER_AUTH_RESULT_BYTES :: nat where "EARLY_USER_AUTH_RESULT_BYTES = 4"
definition AUTHZ_SUCCESS :: u32 where "AUTHZ_SUCCESS = 0"

definition PUBLIC_KEY_PROOF_ALGORITHM :: rstring where
  "PUBLIC_KEY_PROOF_ALGORITHM = lit ''credssp-public-key''"

definition PEER_REPORTING_PORT :: u16 where "PEER_REPORTING_PORT = 3389"

definition auth_rejected :: protocol_error where
  "auth_rejected = AuthRejected PasswordKind"

definition peer_from_spn :: "rstring \<Rightarrow> host_port option" where
  "peer_from_spn spn =
     (let host = (case split_once 0x2F spn of None \<Rightarrow> spn | Some (_, rest) \<Rightarrow> rest)
      in case host_port_new host PEER_REPORTING_PORT of Inl _ \<Rightarrow> None | Inr hp \<Rightarrow> Some hp)"

section \<open>TSRequest\<close>

record ts_request =
  ts_version :: u32
  ts_nego_token :: "u8 list option"
  ts_auth_info :: "u8 list option"
  ts_pub_key_auth :: "u8 list option"
  ts_error_code :: "u32 option"
  ts_client_nonce :: "u8 list option"

definition ts_empty :: ts_request where
  "ts_empty = \<lparr>ts_version = CLIENT_VERSION, ts_nego_token = None, ts_auth_info = None,
     ts_pub_key_auth = None, ts_error_code = None, ts_client_nonce = None\<rparr>"

definition ts_encode :: "ts_request \<Rightarrow> u8 list" where
  "ts_encode r =
     der_sequence
       (tagged 0 (der_integer (ts_version r))
        @ (case ts_nego_token r of None \<Rightarrow> []
           | Some token \<Rightarrow> tagged 1 (der_sequence (der_sequence (tagged 0 (octet_string token)))))
        @ (case ts_auth_info r of None \<Rightarrow> [] | Some info \<Rightarrow> tagged 2 (octet_string info))
        @ (case ts_pub_key_auth r of None \<Rightarrow> [] | Some auth \<Rightarrow> tagged 3 (octet_string auth))
        @ (case ts_client_nonce r of None \<Rightarrow> [] | Some nonce \<Rightarrow> tagged 5 (octet_string nonce)))"

definition expect_in :: "u8 \<Rightarrow> u8 list \<Rightarrow> (protocol_error, u8 list) result" where
  "expect_in tag bytes = and_then (expect tag (reader_new bytes)) (\<lambda>(content, _). Inr content)"

definition decode_token :: "u8 list \<Rightarrow> (protocol_error, u8 list) result" where
  "decode_token content =
     and_then (expect_in TAG_SEQUENCE content) (\<lambda>entries.
     and_then (expect TAG_SEQUENCE (reader_new entries)) (\<lambda>(entry, after).
     and_then (expect_in (context_tag 0) entry) (\<lambda>token.
     and_then (expect_in TAG_OCTET_STRING token) (\<lambda>bytes.
       if \<not> reader_is_empty after then Inl (violation ''the server sent more than one CredSSP token'')
       else Inr bytes))))"

definition decode_field :: "u8 \<Rightarrow> u8 list \<Rightarrow> ts_request \<times> bool \<Rightarrow> (protocol_error, ts_request \<times> bool) result" where
  "decode_field tag content = (\<lambda>(r, seen_version).
     if tag = context_tag 0 then
       and_then (expect_in TAG_INTEGER content) (\<lambda>i.
       and_then (der_read_u32 i) (\<lambda>v. Inr (r\<lparr>ts_version := v\<rparr>, True)))
     else if tag = context_tag 1 then
       and_then (decode_token content) (\<lambda>bs. Inr (r\<lparr>ts_nego_token := Some bs\<rparr>, seen_version))
     else if tag = context_tag 2 then
       and_then (expect_in TAG_OCTET_STRING content) (\<lambda>bs. Inr (r\<lparr>ts_auth_info := Some bs\<rparr>, seen_version))
     else if tag = context_tag 3 then
       and_then (expect_in TAG_OCTET_STRING content) (\<lambda>bs. Inr (r\<lparr>ts_pub_key_auth := Some bs\<rparr>, seen_version))
     else if tag = context_tag 4 then
       and_then (expect_in TAG_INTEGER content) (\<lambda>i.
       and_then (der_read_u32 i) (\<lambda>v. Inr (r\<lparr>ts_error_code := Some v\<rparr>, seen_version)))
     else if tag = context_tag 5 then
       and_then (expect_in TAG_OCTET_STRING content) (\<lambda>bs. Inr (r\<lparr>ts_client_nonce := Some bs\<rparr>, seen_version))
     else Inr (r, seen_version))"

lemma read_any_shorter:
  "read_any r = Inr ((tag, content), r')
    \<Longrightarrow> length (rd_bytes r') - rd_position r' < length (rd_bytes r) - rd_position r"
  using read_any_advances(1-3) [of r tag content r'] by simp

text \<open>The loop over the fields; each round consumes at least two bytes.\<close>

function decode_fields :: "reader \<Rightarrow> ts_request \<times> bool \<Rightarrow> (protocol_error, ts_request \<times> bool) result" where
  "decode_fields rd acc =
     (if reader_is_empty rd then Inr acc
      else
        and_then (read_any rd) (\<lambda>(v, r2). case v of (tag, content) \<Rightarrow>
        and_then (decode_field tag content acc) (\<lambda>acc'. decode_fields r2 acc')))"
  by auto

termination
  by (relation "measure (\<lambda>(r, _). length (rd_bytes r) - rd_position r)") (auto dest: read_any_shorter)

declare decode_fields.simps [simp del]

definition ts_decode :: "u8 list \<Rightarrow> (protocol_error, ts_request) result" where
  "ts_decode bytes =
     and_then (expect_in TAG_SEQUENCE bytes) (\<lambda>body.
     and_then (decode_fields (reader_new body) (ts_empty, False)) (\<lambda>(request, seen_version).
       if \<not> seen_version then Inl (violation ''the server's CredSSP message carried no version'')
       else Inr request))"

definition ts_request_length :: "u8 list \<Rightarrow> (protocol_error, nat option) result" where
  "ts_request_length bytes =
     (case get_at 0 bytes of
        None \<Rightarrow> Inr None
      | Some tag \<Rightarrow>
          if tag \<noteq> TAG_SEQUENCE then Inl (violation ''the server did not send a CredSSP TSRequest'')
          else
            case get_at 1 bytes of
              None \<Rightarrow> Inr None
            | Some first \<Rightarrow>
                if first < 0x80 then Inr (Some (2 + unat first))
                else if first = 0x80 then Inl (violation ''the server used an indefinite DER length'')
                else
                  let count = unat (first AND 0x7F) in
                  if count = 0 \<or> count > 4 then Inl (violation ''the server sent an implausible CredSSP length'')
                  else
                    case get_slice 2 (2 + count) bytes of
                      None \<Rightarrow> Inr None
                    | Some part \<Rightarrow> Inr (Some (2 + count + unat (foldl shift_in (0 :: u64) part))))"

section \<open>The exchange\<close>

datatype credssp_reply = SendAndContinue "u8 list" | SendAndFinish "u8 list"

datatype credssp_state = Challenge | PublicKeyVerification | Done

record credssp_client =
  cc_ntlm :: ntlm_client
  cc_security :: "ntlm_security option"
  cc_state :: credssp_state
  cc_public_key :: "u8 list"
  cc_nonce :: "u8 list"
  cc_peer :: "host_port option"
  cc_negotiated_version :: u32
  cc_domain :: rstring
  cc_username :: rstring
  cc_password :: "u8 list"

definition credssp_new ::
  "primitives \<Rightarrow> rstring \<Rightarrow> rstring \<Rightarrow> rstring \<Rightarrow> rstring \<Rightarrow> u8 list \<Rightarrow> u8 list \<Rightarrow> u8 list \<Rightarrow> credssp_client" where
  "credssp_new p username domain workstation spn password public_key nonce =
     \<lparr>cc_ntlm = ntlm_new p username domain workstation spn password, cc_security = None,
      cc_state = Challenge, cc_public_key = public_key, cc_nonce = nonce, cc_peer = peer_from_spn spn,
      cc_negotiated_version = CLIENT_VERSION, cc_domain = domain, cc_username = username,
      cc_password = password\<rparr>"

definition credssp_start :: "credssp_client \<Rightarrow> u8 list \<times> credssp_client" where
  "credssp_start c =
     (case ntlm_negotiate (cc_ntlm c) of (token, ntlm) \<Rightarrow>
        (ts_encode (ts_empty\<lparr>ts_version := CLIENT_VERSION, ts_nego_token := Some token\<rparr>), c\<lparr>cc_ntlm := ntlm\<rparr>))"

definition binding_hash :: "primitives \<Rightarrow> u8 list \<Rightarrow> u8 list \<Rightarrow> u8 list \<Rightarrow> u8 list" where
  "binding_hash p label nonce public_key = pr_sha256 p (label @ nonce @ public_key)"

definition credentials_blob :: "credssp_client \<Rightarrow> u8 list" where
  "credentials_blob c =
     (let inner = tagged 0 (octet_string (utf16le (cc_domain c)))
            @ tagged 1 (octet_string (utf16le (cc_username c)))
            @ tagged 2 (octet_string (wide_password (cc_password c)));
          password_creds = der_sequence inner
      in der_sequence (tagged 0 (der_integer CRED_TYPE_PASSWORD) @ tagged 1 (octet_string password_creds)))"

definition peer_impersonated :: "primitives \<Rightarrow> credssp_client \<Rightarrow> u8 list \<Rightarrow> u8 list \<Rightarrow> protocol_error" where
  "peer_impersonated p c expected returned =
     (case cc_peer c of
        None \<Rightarrow> Internal (lit ''the CredSSP peer could not be named after its public key proof failed'')
      | Some host \<Rightarrow> HostKeyChanged host PUBLIC_KEY_PROOF_ALGORITHM
          (fingerprint_sha256 (pr_sha256 p) expected) (fingerprint_sha256 (pr_sha256 p) returned))"

definition on_challenge ::
  "primitives \<Rightarrow> ts_request \<Rightarrow> u8 list \<Rightarrow> u8 list \<Rightarrow> u64 \<Rightarrow> credssp_client
    \<Rightarrow> (protocol_error, credssp_reply) result \<times> credssp_client" where
  "on_challenge p request client_challenge session_key now_filetime c =
     (case ts_nego_token request of
        None \<Rightarrow> (Inl (violation ''the server's CredSSP reply carried no NTLM challenge''), c)
      | Some challenge \<Rightarrow>
          case ntlm_authenticate p (cc_ntlm c) challenge client_challenge session_key now_filetime of
            Inl e \<Rightarrow> (Inl e, c)
          | Inr (authenticate, security) \<Rightarrow>
              let bound = (cc_negotiated_version c \<ge> NONCE_BINDING_VERSION);
                  asserted = (if bound then binding_hash p CLIENT_BINDING_LABEL (cc_nonce c) (cc_public_key c)
                              else cc_public_key c)
              in case security_seal p asserted security of
                   (pub_key_auth, security) \<Rightarrow>
                     (Inr (SendAndContinue (ts_encode (ts_empty\<lparr>ts_version := CLIENT_VERSION,
                         ts_nego_token := Some authenticate, ts_pub_key_auth := Some pub_key_auth,
                         ts_client_nonce := (if bound then Some (cc_nonce c) else None)\<rparr>))),
                      c\<lparr>cc_security := Some security, cc_state := PublicKeyVerification\<rparr>))"

text \<open>What the server must return: the hash of its half, or the key with its first byte incremented.\<close>

definition expected_proof :: "primitives \<Rightarrow> credssp_client \<Rightarrow> u8 list" where
  "expected_proof p c =
     (if cc_negotiated_version c \<ge> NONCE_BINDING_VERSION
      then binding_hash p SERVER_BINDING_LABEL (cc_nonce c) (cc_public_key c)
      else case cc_public_key c of [] \<Rightarrow> [] | b # rest \<Rightarrow> (b + 1) # rest)"

definition on_public_key ::
  "primitives \<Rightarrow> ts_request \<Rightarrow> credssp_client \<Rightarrow> (protocol_error, credssp_reply) result \<times> credssp_client" where
  "on_public_key p request c =
     (case ts_pub_key_auth request of
        None \<Rightarrow> (Inl (violation ''the server did not return the public key it was challenged with''), c)
      | Some sealed \<Rightarrow>
          case cc_security c of
            None \<Rightarrow> (Inl (Internal (lit ''the CredSSP public key step ran before authentication'')), c)
          | Some security \<Rightarrow>
              case security_unseal p sealed security of (r, security) \<Rightarrow>
                let c = c\<lparr>cc_security := Some security\<rparr> in
                case r of
                  Inl e \<Rightarrow> (Inl e, c)
                | Inr returned \<Rightarrow>
                    if returned \<noteq> expected_proof p c
                    then (Inl (peer_impersonated p c (expected_proof p c) returned), c)
                    else
                      case security_seal p (credentials_blob c) security of
                        (auth_info, security) \<Rightarrow>
                          (Inr (SendAndFinish (ts_encode (ts_empty\<lparr>ts_version := CLIENT_VERSION,
                              ts_auth_info := Some auth_info\<rparr>))),
                           c\<lparr>cc_security := Some security, cc_state := Done\<rparr>))"

definition credssp_step ::
  "primitives \<Rightarrow> u8 list \<Rightarrow> u8 list \<Rightarrow> u8 list \<Rightarrow> u64 \<Rightarrow> credssp_client
    \<Rightarrow> (protocol_error, credssp_reply) result \<times> credssp_client" where
  "credssp_step p input client_challenge session_key now_filetime c =
     (case ts_decode input of
        Inl e \<Rightarrow> (Inl e, c)
      | Inr request \<Rightarrow>
          let c = c\<lparr>cc_negotiated_version := min (cc_negotiated_version c) (ts_version request)\<rparr> in
          if (case ts_error_code request of Some code \<Rightarrow> code \<noteq> 0 | None \<Rightarrow> False) then (Inl auth_rejected, c)
          else
            case cc_state c of
              Challenge \<Rightarrow> on_challenge p request client_challenge session_key now_filetime c
            | PublicKeyVerification \<Rightarrow> on_public_key p request c
            | Done \<Rightarrow> (Inl (violation ''the server sent a CredSSP message after the exchange ended''), c))"

definition credssp_is_done :: "credssp_client \<Rightarrow> bool" where
  "credssp_is_done c \<longleftrightarrow> cc_state c = Done"

definition check_early_user_auth_result :: "u8 list \<Rightarrow> (protocol_error, unit) result" where
  "check_early_user_auth_result bytes =
     (case get_slice 0 EARLY_USER_AUTH_RESULT_BYTES bytes of
        None \<Rightarrow> Inl (violation ''the server sent a truncated early user authorisation result'')
      | Some part \<Rightarrow> if u32_from_le part = AUTHZ_SUCCESS then Inr () else Inl auth_rejected)"

end
