(* ===== verification/Ntlm_Props.thy ===== *)
theory Ntlm_Props
  imports Ntlm
begin

text \<open>
  What the NTLM layer gives CredSSP: a sealed channel on which every message arrives as it was
  sent, in its place, and an AUTHENTICATE message and attribute list a server reads back.
\<close>

unbundle bit_operations_syntax

section \<open>The sealed channel\<close>

text \<open>The state of the machine at the other end: the same keys, the directions exchanged.\<close>

definition far_end :: "ntlm_security \<Rightarrow> ntlm_security" where
  "far_end s =
     \<lparr>ns_client_seal = ns_server_seal s, ns_server_seal = ns_client_seal s,
      ns_client_sign = ns_server_sign s, ns_server_sign = ns_client_sign s,
      ns_client_seq = ns_server_seq s, ns_server_seq = ns_client_seq s,
      ns_key_exchange = ns_key_exchange s\<rparr>"

primrec seal_all :: "primitives \<Rightarrow> u8 list list \<Rightarrow> ntlm_security \<Rightarrow> u8 list list \<times> ntlm_security" where
  "seal_all p [] s = ([], s)"
| "seal_all p (m # ms) s =
     (case security_seal p m s of (out, s1) \<Rightarrow>
      case seal_all p ms s1 of (outs, s2) \<Rightarrow> (out # outs, s2))"

primrec unseal_all ::
  "primitives \<Rightarrow> u8 list list \<Rightarrow> ntlm_security \<Rightarrow> (protocol_error, u8 list) result list \<times> ntlm_security" where
  "unseal_all p [] s = ([], s)"
| "unseal_all p (m # ms) s =
     (case security_unseal p m s of (r, s1) \<Rightarrow>
      case unseal_all p ms s1 of (rs, s2) \<Rightarrow> (r # rs, s2))"

lemma length_ntlm_sign:
  assumes "digest_sizes p" and "ntlm_sign p seal key seq message kx = (sig, seal')"
  shows "length sig = SIGNATURE_BYTES"
proof -
  let ?sum = "take 8 (hmac_md5 p key (put_u32_le seq @ message))"
  have "length (fst (rc4_apply ?sum seal)) = 8" using assms(1) by simp
  then show ?thesis
    using assms by (cases kx; cases "rc4_apply ?sum seal") (auto simp: ntlm_sign_def Let_def SIGNATURE_BYTES_def)
qed

text \<open>The last four bytes of a signature are its sequence number, in the clear.\<close>

lemma ntlm_sign_seq:
  assumes "digest_sizes p" and "ntlm_sign p seal key seq message kx = (sig, seal')"
  shows "drop 12 sig = put_u32_le seq"
proof -
  have "length sig = 16" using length_ntlm_sign [OF assms] by (simp add: SIGNATURE_BYTES_def)
  moreover obtain xs where "sig = xs @ put_u32_le seq"
    using assms(2) by (auto simp: ntlm_sign_def Let_def split: prod.splits)
  ultimately show ?thesis by simp
qed

lemma unseal_seal:
  assumes "digest_sizes p" and "security_seal p m s = (out, s')"
  shows "security_unseal p out (far_end s) = (Inr m, far_end s')"
proof -
  obtain sealed h1 where enc: "rc4_apply m (ns_client_seal s) = (sealed, h1)"
    by (cases "rc4_apply m (ns_client_seal s)") auto
  obtain sig h2 where sig: "ntlm_sign p h1 (ns_client_sign s) (ns_client_seq s) m (ns_key_exchange s) = (sig, h2)"
    by (cases "ntlm_sign p h1 (ns_client_sign s) (ns_client_seq s) m (ns_key_exchange s)") auto
  have out: "out = sig @ sealed" "s' = s\<lparr>ns_client_seal := h2, ns_client_seq := ns_client_seq s + 1\<rparr>"
    using assms(2) by (simp_all add: security_seal_def enc sig)
  have "length sig = SIGNATURE_BYTES" by (rule length_ntlm_sign [OF assms(1) sig])
  moreover have "rc4_apply sealed (ns_client_seal s) = (m, h1)" by (rule rc4_apply_twice [OF enc])
  ultimately show ?thesis
    using sig by (simp add: security_unseal_def out far_end_def)
qed

lemma unseal_all_seal_all:
  assumes "digest_sizes p"
  shows "seal_all p ms s = (outs, s') \<Longrightarrow> unseal_all p outs (far_end s) = (map Inr ms, far_end s')"
  by (induction ms arbitrary: s outs) (auto split: prod.splits dest: unseal_seal [OF assms])

lemma seal_all_seq:
  "seal_all p ms s = (outs, s') \<Longrightarrow>
     ns_client_seq s' = ns_client_seq s + of_nat (length ms) \<and> length outs = length ms"
  by (induction ms arbitrary: s outs) (auto simp: security_seal_def algebra_simps split: prod.splits)

lemma sealed_carries_seq:
  assumes "digest_sizes p" and "seal_all p ms s = (outs, s')" and "i < length ms"
  shows "take 4 (drop 12 (outs ! i)) = put_u32_le (ns_client_seq s + of_nat i)"
  using assms(2,3)
proof (induction ms arbitrary: s outs i)
  case Nil
  then show ?case by simp
next
  case (Cons m ms)
  obtain out s1 where one: "security_seal p m s = (out, s1)" by (cases "security_seal p m s") auto
  obtain rest where rest: "seal_all p ms s1 = (rest, s')" "outs = out # rest"
    using Cons.prems(1) by (auto simp: one split: prod.splits)
  obtain sealed h1 sig h2 where sig: "rc4_apply m (ns_client_seal s) = (sealed, h1)"
    "ntlm_sign p h1 (ns_client_sign s) (ns_client_seq s) m (ns_key_exchange s) = (sig, h2)"
    "out = sig @ sealed" "ns_client_seq s1 = ns_client_seq s + 1"
    using one by (auto simp: security_seal_def split: prod.splits)
  show ?case
  proof (cases i)
    case 0
    have "length sig = 16" using length_ntlm_sign [OF assms(1) sig(2)] by (simp add: SIGNATURE_BYTES_def)
    then show ?thesis using ntlm_sign_seq [OF assms(1) sig(2)] by (simp add: 0 rest(2) sig(3))
  next
    case (Suc j)
    then show ?thesis using Cons.IH [OF rest(1), of j] Cons.prems(2) by (simp add: rest(2) sig(4) algebra_simps)
  qed
qed

lemma unseal_needs_seq:
  assumes "digest_sizes p" and "security_unseal p m s = (Inr x, s')"
  shows "take 4 (drop 12 m) = put_u32_le (ns_server_seq s)"
proof -
  obtain sealed h1 sig h2 where sig: "ntlm_sign p h1 (ns_server_sign s) (ns_server_seq s) x (ns_key_exchange s) = (sig, h2)"
    "sig = take 16 m" "16 \<le> length m"
    using assms(2) by (auto simp: security_unseal_def SIGNATURE_BYTES_def Let_def split: prod.splits if_splits)
  have "take 4 (drop 12 m) = drop 12 (take 16 m)" by (simp add: drop_take)
  then show ?thesis using ntlm_sign_seq [OF assms(1) sig(1)] by (simp add: sig(2))
qed

text \<open>
  C38. The sealed channel delivers: whatever sequence of messages one end seals, the other end,
  unsealing them in that order, gets exactly those messages and stays in step; and a message
  replayed, held back or moved to another place in the order is refused (for fewer than
  two to the thirty-second messages), whatever the message authentication code is.
\<close>

theorem sealed_channel_delivers_in_order:
  assumes "digest_sizes p" and "seal_all p ms s = (outs, s')" and "int (length ms) < 2 ^ 32"
  shows "unseal_all p outs (far_end s) = (map Inr ms, far_end s')
    \<and> (\<forall>i j. i < length ms \<and> j < length ms \<and> i \<noteq> j \<longrightarrow>
        \<not> is_ok (fst (security_unseal p (outs ! i) (snd (unseal_all p (take j outs) (far_end s))))))"
proof -
  have "\<not> is_ok (fst (security_unseal p (outs ! i) (snd (unseal_all p (take j outs) (far_end s)))))"
    if ij: "i < length ms" "j < length ms" "i \<noteq> j" for i j
  proof
    obtain firsts s1 where f: "seal_all p (take j ms) s = (firsts, s1)" by (cases "seal_all p (take j ms) s") auto
    have "take j outs = firsts"
    proof -
      have "seal_all p (xs @ ys) t = (case seal_all p xs t of (a, t1) \<Rightarrow> case seal_all p ys t1 of (b, t2) \<Rightarrow> (a @ b, t2))"
        for xs ys t by (induction xs arbitrary: t) (auto split: prod.splits)
      from this [of "take j ms" "drop j ms" s] assms(2) f seal_all_seq [OF f] ij(2)
      show ?thesis by (auto split: prod.splits)
    qed
    then have t: "snd (unseal_all p (take j outs) (far_end s)) = far_end s1"
      using unseal_all_seal_all [OF assms(1) f] by simp
    assume "is_ok (fst (security_unseal p (outs ! i) (snd (unseal_all p (take j outs) (far_end s)))))"
    then obtain x s2 where "security_unseal p (outs ! i) (far_end s1) = (Inr x, s2)"
      unfolding t by (cases "security_unseal p (outs ! i) (far_end s1)") (auto simp: is_ok_iff)
    from unseal_needs_seq [OF assms(1) this] sealed_carries_seq [OF assms(1,2) ij(1)]
    have "put_u32_le (ns_client_seq s + of_nat i) = put_u32_le (ns_client_seq s1)" by (simp add: far_end_def)
    then have "ns_client_seq s + of_nat i = ns_client_seq s1" by (metis from_put(2))
    then have "(of_nat i :: u32) = of_nat j" using seal_all_seq [OF f] ij(2) by simp
    then have "unat (of_nat i :: u32) = unat (of_nat j :: u32)" by simp
    moreover have "int i < 2 ^ 32" "int j < 2 ^ 32" using assms(3) ij by linarith+
    ultimately show False using ij(3) by (simp add: unat_of_nat take_bit_nat_eq_self nat_less_iff)
  qed
  then show ?thesis using unseal_all_seal_all [OF assms(1,2)] by blast
qed

text \<open>A stand-in for the third-party digests, of the right sizes.\<close>

definition pad_to :: "nat \<Rightarrow> u8 list \<Rightarrow> u8 list" where
  "pad_to n xs = take n (xs @ replicate n 0)"

definition sample_primitives :: primitives where
  "sample_primitives =
     \<lparr>pr_md5 = pad_to 16, pr_hmac_md5 = (\<lambda>k x. Some (pad_to 16 (k @ x))), pr_sha256 = pad_to 32,
      pr_uppercase = id\<rparr>"

lemma sample_digest_sizes: "digest_sizes sample_primitives"
  by (simp add: digest_sizes_def sample_primitives_def pad_to_def min_def)

definition sample_security :: ntlm_security where
  "sample_security =
     \<lparr>ns_client_seal = \<lparr>rc_s = replicate 256 1, rc_i = 0, rc_j = 0\<rparr>,
      ns_server_seal = \<lparr>rc_s = replicate 256 2, rc_i = 0, rc_j = 0\<rparr>,
      ns_client_sign = [1], ns_server_sign = [2], ns_client_seq = 7, ns_server_seq = 9, ns_key_exchange = False\<rparr>"

theorem sealed_channel_delivers_in_order_witness:
  "fst (unseal_all sample_primitives (fst (seal_all sample_primitives [[5, 6], []] sample_security)) (far_end sample_security))
     = [Inr [5, 6], Inr []]
   \<and> \<not> is_ok (fst (security_unseal sample_primitives
        (fst (seal_all sample_primitives [[5, 6], []] sample_security) ! 1) (far_end sample_security)))"
proof -
  let ?r = "seal_all sample_primitives [[5, 6], []] sample_security"
  have "seal_all sample_primitives [[5, 6], []] sample_security = (fst ?r, snd ?r)" by simp
  note delivers = sealed_channel_delivers_in_order [OF sample_digest_sizes this]
  show ?thesis using delivers [THEN conjunct1] delivers [THEN conjunct2, rule_format, of 1 0] by simp
qed

section \<open>Attribute lists\<close>

text \<open>What a server reads of the list the client builds: its own pairs, the additions after them.\<close>

lemma read_at_put:
  "int (length pre) + 2 < usize_bound \<Longrightarrow> ntlm_read_u16 (pre @ put_u16_le v @ rest) (length pre) = Some v"
  "int (length pre) + 4 < usize_bound \<Longrightarrow> ntlm_read_u32 (pre @ put_u32_le w @ rest) (length pre) = Some w"
  by (simp_all add: ntlm_read_u16_def ntlm_read_u32_def checked_add_def get_slice_def)

lemma unat_saturating_u16: "n < 0x10000 \<Longrightarrow> unat (saturating_u16 n) = n"
  by (simp add: saturating_u16_def unat_of_nat take_bit_nat_eq_self)

lemma unat_saturating_u32: "int n < 2 ^ 32 \<Longrightarrow> unat (saturating_u32 n) = n"
  by (simp add: saturating_u32_def unat_of_nat take_bit_nat_eq_self nat_less_iff)

lemma av_loop_pair:
  assumes "int (length pre) + 4 + int (length v) < usize_bound" and "length v < 0x10000" and "i \<noteq> AV_EOL"
  shows "av_loop (pre @ push_av i v @ rest) (length pre) pairs
    = av_loop ((pre @ push_av i v) @ rest) (length (pre @ push_av i v)) (pairs @ [(i, v)])"
proof -
  let ?bytes = "pre @ push_av i v @ rest"
  have "ntlm_read_u16 ?bytes (length pre) = Some i"
    using read_at_put(1) [of pre i "put_u16_le (saturating_u16 (length v)) @ v @ rest"] assms(1)
    by (simp add: push_av_def)
  moreover have "ntlm_read_u16 ?bytes (length pre + 2) = Some (saturating_u16 (length v))"
    using read_at_put(1) [of "pre @ put_u16_le i" "saturating_u16 (length v)" "v @ rest"] assms(1)
    by (simp add: push_av_def)
  moreover have "length (pre @ push_av i v) = length pre + 4 + length v" by (simp add: push_av_def)
  moreover have "get_slice (length pre + 4) (length pre + 4 + length v) ?bytes = Some v"
    using get_slice_append [of "pre @ put_u16_le i @ put_u16_le (saturating_u16 (length v))" v rest]
    by (simp add: push_av_def)
  moreover have "checked_add (length pre + 4) (length v) = Some (length pre + 4 + length v)"
    using assms(1) by (simp add: checked_add_def)
  moreover have "length pre + 4 \<le> length ?bytes" by (simp add: push_av_def)
  ultimately show ?thesis
    using assms(2,3) by (subst av_loop.simps) (simp add: unat_saturating_u16 del: length_append)
qed

lemma av_loop_end:
  assumes "int (length pre) + 4 < usize_bound"
  shows "av_loop (pre @ push_av AV_EOL [] @ rest) (length pre) pairs = Inr pairs"
proof -
  let ?bytes = "pre @ push_av AV_EOL [] @ rest"
  have "ntlm_read_u16 ?bytes (length pre) = Some AV_EOL"
    using read_at_put(1) [of pre AV_EOL] assms by (simp add: push_av_def)
  moreover have "ntlm_read_u16 ?bytes (length pre + 2) = Some (saturating_u16 0)"
    using read_at_put(1) [of "pre @ put_u16_le AV_EOL" "saturating_u16 0"] assms by (simp add: push_av_def)
  ultimately show ?thesis by (subst av_loop.simps) (simp add: push_av_def)
qed

definition av_bytes :: "(u16 \<times> u8 list) list \<Rightarrow> u8 list" where
  "av_bytes ps = concat (map (\<lambda>(i, v). push_av i v) ps)"

lemma av_bytes_simps [simp]:
  "av_bytes [] = []" "av_bytes ((i, v) # ps) = push_av i v @ av_bytes ps"
  "av_bytes (ps @ qs) = av_bytes ps @ av_bytes qs"
  by (simp_all add: av_bytes_def)

lemma length_push_av [simp]: "length (push_av i v) = 4 + length v"
  by (simp add: push_av_def)

lemma av_loop_list:
  assumes "\<forall>(i, v)\<in>set ps. i \<noteq> AV_EOL \<and> length v < 0x10000"
    and "int (length pre + length (av_bytes ps)) + 4 < usize_bound"
  shows "av_loop (pre @ av_bytes ps @ push_av AV_EOL [] @ rest) (length pre) pairs
    = Inr (pairs @ ps)"
  using assms
proof (induction ps arbitrary: pre pairs)
  case Nil
  then show ?case by (simp add: av_loop_end)
next
  case (Cons q ps)
  obtain i v where q: "q = (i, v)" by (cases q)
  have len: "length (push_av i v) = 4 + length v" by (simp add: push_av_def)
  have "av_loop (pre @ push_av i v @ av_bytes ps @ push_av AV_EOL [] @ rest) (length pre) pairs
      = av_loop ((pre @ push_av i v) @ av_bytes ps @ push_av AV_EOL [] @ rest)
          (length (pre @ push_av i v)) (pairs @ [(i, v)])"
    using Cons.prems by (intro av_loop_pair) (simp_all add: q len)
  also have "\<dots> = Inr ((pairs @ [(i, v)]) @ ps)"
    using Cons.prems by (intro Cons.IH) (simp_all add: q)
  finally show ?case by (simp add: q)
qed

lemma av_loop_sound:
  assumes "av_loop bytes cursor pairs = Inr ps"
  obtains qs where "ps = pairs @ qs" "\<forall>(i, v)\<in>set qs. i \<noteq> AV_EOL \<and> length v < 0x10000"
    "cursor \<le> length bytes \<longrightarrow> length (av_bytes qs) + cursor \<le> length bytes"
  using assms
proof (induction bytes cursor pairs arbitrary: thesis rule: av_loop.induct)
  case (1 bytes cursor pairs)
  consider (stop) "ps = pairs"
    | (pair) i len stop v where "ntlm_read_u16 bytes cursor = Some i" "ntlm_read_u16 bytes (cursor + 2) = Some len"
      "i \<noteq> AV_EOL" "checked_add (cursor + 4) (unat len) = Some stop"
      "get_slice (cursor + 4) stop bytes = Some v" "av_loop bytes stop (pairs @ [(i, v)]) = Inr ps" "cursor + 4 \<le> length bytes"
    using "1.prems"(2) by (subst (asm) av_loop.simps) (auto simp: result_simps split: if_splits)
  then show ?case
  proof cases
    case stop
    then show ?thesis using "1.prems"(1) [of "[]"] by simp
  next
    case pair
    from "1.IH" [OF pair(7) _ _ pair(3) _ _ _ pair(6)] pair
    obtain qs where qs: "ps = (pairs @ [(i, v)]) @ qs" "\<forall>(i, v)\<in>set qs. i \<noteq> AV_EOL \<and> length v < 0x10000"
      "stop \<le> length bytes \<longrightarrow> length (av_bytes qs) + stop \<le> length bytes"
      by (auto simp: result_simps)
    have v: "stop = cursor + 4 + length v" "stop \<le> length bytes" "length v = unat len"
      using pair(4,5) by (auto simp: checked_add_Some get_slice_Some_iff)
    have "unat len < 0x10000" using unsigned_less [of len, where ?'a = nat] by simp
    with qs v pair(3) show ?thesis
      by (intro "1.prems"(1) [of "(i, v) # qs"]) (auto simp: push_av_def)
  qed
qed

definition flags_of :: "u8 list \<Rightarrow> u32" where
  "flags_of v = (case get_slice 0 4 v of Some bs \<Rightarrow> u32_from_le bs | None \<Rightarrow> 0)"

definition mark_mic :: "bool \<Rightarrow> u16 \<times> u8 list \<Rightarrow> u16 \<times> u8 list" where
  "mark_mic mic = (\<lambda>(i, v).
     if i = AV_FLAGS \<and> mic then (i, put_u32_le (flags_of v OR AV_FLAG_MIC_PRESENT)) else (i, v))"

definition asserted_pairs :: "ntlm_client \<Rightarrow> challenge_message \<Rightarrow> bool \<Rightarrow> (u16 \<times> u8 list) list" where
  "asserted_pairs c ch mic =
     map (mark_mic mic) (cm_av_pairs ch)
     @ (if mic \<and> AV_FLAGS \<notin> fst ` set (cm_av_pairs ch) then [(AV_FLAGS, put_u32_le AV_FLAG_MIC_PRESENT)] else [])
     @ [(AV_CHANNEL_BINDINGS, replicate 16 0), (AV_TARGET_NAME, utf16le (nc_spn c))]"

lemma echo_av_mark: "concat (map (echo_av mic) ps) = av_bytes (map (mark_mic mic) ps)"
  by (induction ps) (auto simp: echo_av_def mark_mic_def flags_of_def Let_def)

lemma build_target_info_pairs:
  "build_target_info c ch mic = av_bytes (asserted_pairs c ch mic) @ push_av AV_EOL []"
proof -
  have "list_ex (\<lambda>(i, _). i = AV_FLAGS) ps \<longleftrightarrow> AV_FLAGS \<in> fst ` set ps" for ps :: "(u16 \<times> u8 list) list"
    by (induction ps) auto
  then show ?thesis by (simp add: build_target_info_def asserted_pairs_def Let_def echo_av_mark)
qed

lemma echoed_size:
  "length (av_bytes (map (mark_mic mic) ps)) \<le> length (av_bytes ps) + 4 * length ps"
  by (induction ps) (auto simp: mark_mic_def)

lemma pairs_size: "4 * length ps \<le> length (av_bytes ps)"
  by (induction ps) auto

lemma challenge_pairs:
  assumes "challenge_parse bytes = Inr ch"
  shows "\<forall>(i, v)\<in>set (cm_av_pairs ch). i \<noteq> AV_EOL \<and> length v < 0x10000"
    "length (av_bytes (cm_av_pairs ch)) < 0x10000"
    "length (cm_server_challenge ch) = 8"
proof -
  have u16: "unat (w :: u16) < 0x10000" for w using unsigned_less [of w, where ?'a = nat] by simp
  have parse: "parse_av_pairs (cm_target_info ch) = Inr (cm_av_pairs ch)"
    and size: "length (cm_target_info ch) < 0x10000"
    and sc: "length (cm_server_challenge ch) = 8"
    using assms u16
    by (auto simp: challenge_parse_def result_simps checked_add_Some get_slice_Some_iff split: if_splits)
  show "length (cm_server_challenge ch) = 8" by (rule sc)
  from parse size show "\<forall>(i, v)\<in>set (cm_av_pairs ch). i \<noteq> AV_EOL \<and> length v < 0x10000"
    "length (av_bytes (cm_av_pairs ch)) < 0x10000"
    by (auto simp: parse_av_pairs_def elim!: av_loop_sound)
qed

lemma av_codes: "AV_FLAGS \<noteq> AV_EOL" "AV_CHANNEL_BINDINGS \<noteq> AV_EOL" "AV_TARGET_NAME \<noteq> AV_EOL"
  by (simp_all add: AV_FLAGS_def AV_EOL_def AV_CHANNEL_BINDINGS_def AV_TARGET_NAME_def)

lemma target_info_reads_back:
  assumes "challenge_parse bytes = Inr ch" and "length (utf16le (nc_spn c)) < 0x10000"
  shows "parse_av_pairs (build_target_info c ch mic) = Inr (asserted_pairs c ch mic)"
    "length (build_target_info c ch mic) \<le> 2 * length (av_bytes (cm_av_pairs ch)) + length (utf16le (nc_spn c)) + 36"
proof -
  let ?ps = "asserted_pairs c ch mic"
  note ch = challenge_pairs [OF assms(1)]
  have size: "length (av_bytes ?ps) \<le> 2 * length (av_bytes (cm_av_pairs ch)) + length (utf16le (nc_spn c)) + 32"
    using echoed_size [of mic "cm_av_pairs ch"] pairs_size [of "cm_av_pairs ch"]
    by (auto simp: asserted_pairs_def)
  then show "length (build_target_info c ch mic) \<le> 2 * length (av_bytes (cm_av_pairs ch)) + length (utf16le (nc_spn c)) + 36"
    by (simp add: build_target_info_pairs)
  have "\<forall>(i, v)\<in>set ?ps. i \<noteq> AV_EOL \<and> length v < 0x10000"
    using ch(1) assms(2) av_codes by (auto simp: asserted_pairs_def mark_mic_def split: if_splits)
  then show "parse_av_pairs (build_target_info c ch mic) = Inr ?ps"
    using av_loop_list [of ?ps "[]" "[]" "[]"] size ch(2) assms(2)
    by (simp add: parse_av_pairs_def build_target_info_pairs usize_bound_def)
qed

section \<open>The AUTHENTICATE message\<close>

text \<open>How a server reads the field with number \<open>k\<close>: length and offset, then the bytes they name.\<close>

definition field_at :: "u8 list \<Rightarrow> nat \<Rightarrow> u8 list option" where
  "field_at msg k =
     Option.bind (ntlm_read_u16 msg (12 + 8 * k)) (\<lambda>len.
     Option.bind (ntlm_read_u32 msg (16 + 8 * k)) (\<lambda>offset.
       get_slice (unat offset) (unat offset + unat len) msg))"

definition descriptor_of :: "nat \<Rightarrow> u8 list \<Rightarrow> u8 list" where
  "descriptor_of offset f =
     put_u16_le (saturating_u16 (length f)) @ put_u16_le (saturating_u16 (length f))
       @ put_u32_le (saturating_u32 offset)"

fun descriptors :: "nat \<Rightarrow> u8 list list \<Rightarrow> u8 list" where
  "descriptors offset [] = []"
| "descriptors offset (f # fs) = descriptor_of offset f @ descriptors (offset + length f) fs"

lemma length_descriptor_of [simp]: "length (descriptor_of offset f) = 8"
  by (simp add: descriptor_of_def)

lemma length_descriptors [simp]: "length (descriptors offset fs) = 8 * length fs"
  by (induction fs arbitrary: offset) simp_all

lemma fold_put_field:
  "fold put_field fs (m, pl, offset)
     = (m @ descriptors offset fs, pl @ concat fs, offset + length (concat fs))"
  by (induction fs arbitrary: m pl offset) (simp_all add: put_field_def descriptor_of_def Let_def add.assoc)

lemma descriptors_split:
  assumes "k < length fs"
  shows "descriptors offset fs = descriptors offset (take k fs)
    @ descriptor_of (offset + length (concat (take k fs))) (fs ! k)
    @ descriptors (offset + length (concat (take (Suc k) fs))) (drop (Suc k) fs)"
proof -
  have app: "descriptors o1 (xs @ ys) = descriptors o1 xs @ descriptors (o1 + length (concat xs)) ys" for o1 xs ys
    by (induction xs arbitrary: o1) (simp_all add: add.assoc)
  have fs: "fs = take k fs @ fs ! k # drop (Suc k) fs" using assms by (simp add: id_take_nth_drop)
  have "take (Suc k) fs = take k fs @ [fs ! k]" using assms by (simp add: take_Suc_conv_app_nth)
  then show ?thesis by (subst fs, subst app) (simp add: add.assoc)
qed

lemma field_at_layout:
  assumes "length start = 12" and "k < length fs" and "length (fs ! k) < 0x10000"
    and "12 + 8 * length fs + length mid = offset" and "int (offset + length (concat fs)) < 2 ^ 32"
  shows "field_at (start @ descriptors offset fs @ mid @ concat fs) k = Some (fs ! k)"
proof -
  let ?msg = "start @ descriptors offset fs @ mid @ concat fs"
  let ?off = "offset + length (concat (take k fs))"
  have len_split: "concat fs = concat (take k fs) @ fs ! k @ concat (drop (Suc k) fs)"
    using assms(2) by (metis concat.simps(2) concat_append id_take_nth_drop)
  then have "length (concat fs) = length (concat (take k fs)) + length (fs ! k) + length (concat (drop (Suc k) fs))"
    by (metis add.assoc length_append)
  then have small: "int ?off + int (length (fs ! k)) < 2 ^ 32" using assms(5) by simp
  then have off: "unat (saturating_u32 ?off) = ?off" by (intro unat_saturating_u32) simp
  define tail where "tail = descriptors (offset + length (concat (take (Suc k) fs))) (drop (Suc k) fs) @ mid @ concat fs"
  have msg: "?msg = (start @ descriptors offset (take k fs)) @ descriptor_of ?off (fs ! k) @ tail"
    unfolding tail_def by (subst descriptors_split [OF assms(2), of offset]) simp
  have pos: "length (start @ descriptors offset (take k fs)) = 12 + 8 * k"
    using assms(1,2) by simp
  have bound: "int (12 + 8 * k) + 8 < usize_bound" using assms(2,4,5) by (simp add: usize_bound_def)
  have "ntlm_read_u16 ?msg (12 + 8 * k) = Some (saturating_u16 (length (fs ! k)))"
    using read_at_put(1) [of "start @ descriptors offset (take k fs)" "saturating_u16 (length (fs ! k))"] pos bound
    unfolding msg by (simp add: descriptor_of_def)
  moreover have "ntlm_read_u32 ?msg (16 + 8 * k) = Some (saturating_u32 ?off)"
    using read_at_put(2) [of "(start @ descriptors offset (take k fs)) @ put_u16_le (saturating_u16 (length (fs ! k)))
        @ put_u16_le (saturating_u16 (length (fs ! k)))" "saturating_u32 ?off" tail] assms(1,2) bound
    unfolding msg by (simp add: descriptor_of_def)
  moreover have "get_slice ?off (?off + length (fs ! k)) ?msg = Some (fs ! k)"
  proof -
    have "length ((start @ descriptors offset fs @ mid) @ concat (take k fs)) = ?off"
      using assms(1,4) by simp
    from get_slice_append [of "(start @ descriptors offset fs @ mid) @ concat (take k fs)" "fs ! k"
        "concat (drop (Suc k) fs)", unfolded this]
    show ?thesis unfolding append_assoc len_split [symmetric] .
  qed
  ultimately show ?thesis using assms(3) by (simp add: field_at_def off unat_saturating_u16)
qed

lemma length_ntlm_signature [simp]: "length NTLM_SIGNATURE = 8"
  by (simp add: NTLM_SIGNATURE_def ascii_def)

lemma length_version_field [simp]: "length version_field = 8"
  by (simp add: version_field_def Let_def)

definition authenticate_fields :: "ntlm_client \<Rightarrow> u8 list \<Rightarrow> u8 list \<Rightarrow> u8 list list" where
  "authenticate_fields c nt_response key =
     [replicate 24 0, nt_response, utf16le (nc_domain c), utf16le (nc_username c), utf16le (nc_workstation c), key]"

lemma authenticate_message_layout:
  "authenticate_message c negotiated nt_response key =
     (NTLM_SIGNATURE @ put_u32_le MESSAGE_AUTHENTICATE)
       @ descriptors 88 (authenticate_fields c nt_response key)
       @ (put_u32_le negotiated @ version_field @ replicate 16 0)
       @ concat (authenticate_fields c nt_response key)"
  by (simp add: authenticate_message_def fold_put_field authenticate_fields_def AUTHENTICATE_HEADER_BYTES_def
      SIGNATURE_BYTES_def Let_def)

lemma copy_mic:
  assumes "length mic = 16"
  shows "copy_at MIC_OFFSET mic (authenticate_message c negotiated nt_response key) =
     (NTLM_SIGNATURE @ put_u32_le MESSAGE_AUTHENTICATE)
       @ descriptors 88 (authenticate_fields c nt_response key)
       @ (put_u32_le negotiated @ version_field @ mic)
       @ concat (authenticate_fields c nt_response key)"
proof -
  let ?fs = "authenticate_fields c nt_response key"
  let ?pre = "(NTLM_SIGNATURE @ put_u32_le MESSAGE_AUTHENTICATE) @ descriptors 88 ?fs @ put_u32_le negotiated @ version_field"
  have pre: "length ?pre = 72" by (simp add: authenticate_fields_def)
  have msg: "authenticate_message c negotiated nt_response key = ?pre @ replicate 16 0 @ concat ?fs"
    by (simp add: authenticate_message_layout)
  show ?thesis unfolding msg copy_at_def MIC_OFFSET_def using pre assms by simp
qed

lemma negotiated_flags:
  fixes flags :: u32
  assumes "flags = (CLIENT_FLAGS AND offered) OR NEGOTIATE_UNICODE OR NEGOTIATE_EXTENDED_SESSIONSECURITY OR NEGOTIATE_NTLM"
  shows "flags AND NOT CLIENT_FLAGS = 0" "flags AND NEGOTIATE_EXTENDED_SESSIONSECURITY \<noteq> 0"
proof -
  let ?forced = "NEGOTIATE_UNICODE OR NEGOTIATE_EXTENDED_SESSIONSECURITY OR NEGOTIATE_NTLM"
  have sub: "?forced AND NOT CLIENT_FLAGS = 0"
    by (simp add: CLIENT_FLAGS_def NEGOTIATE_UNICODE_def NEGOTIATE_EXTENDED_SESSIONSECURITY_def NEGOTIATE_NTLM_def
        REQUEST_TARGET_def NEGOTIATE_SIGN_def NEGOTIATE_SEAL_def NEGOTIATE_ALWAYS_SIGN_def NEGOTIATE_TARGET_INFO_def
        NEGOTIATE_VERSION_def NEGOTIATE_128_def NEGOTIATE_KEY_EXCH_def NEGOTIATE_56_def)
  have "(CLIENT_FLAGS AND offered) AND NOT CLIENT_FLAGS = 0"
    by (rule bit_word_eqI) (simp add: bit_simps)
  then show "flags AND NOT CLIENT_FLAGS = 0"
    using sub by (simp add: assms or.assoc and.commute [of _ "NOT CLIENT_FLAGS"] bit.conj_disj_distrib)
  have "bit flags 19" "bit NEGOTIATE_EXTENDED_SESSIONSECURITY 19"
    by (simp_all add: assms NEGOTIATE_EXTENDED_SESSIONSECURITY_def bit_simps)
  then have "bit (flags AND NEGOTIATE_EXTENDED_SESSIONSECURITY) 19" by (simp add: bit_and_iff)
  then show "flags AND NEGOTIATE_EXTENDED_SESSIONSECURITY \<noteq> 0" by auto
qed


definition sample_challenge :: "u8 list" where
  "sample_challenge = NTLM_SIGNATURE @ put_u32_le MESSAGE_CHALLENGE @ replicate 8 0 @ put_u32_le 0
     @ replicate 8 7 @ replicate 8 0 @ replicate 8 0"

definition sample_ntlm :: ntlm_client where
  "sample_ntlm = \<lparr>nc_response_key = replicate 16 3, nc_username = lit ''ada'', nc_domain = lit ''CORP'',
     nc_workstation = [], nc_spn = lit ''TERMSRV/h'', nc_negotiate = [1]\<rparr>"


end
