(* ===== verification/Credssp_Props.thy ===== *)
theory Credssp_Props
  imports Credssp Ntlm_Props Machine
begin

text \<open>
  What CredSSP promises: its messages survive the stream, and the credentials leave only
  after the server proved it holds the key of its certificate.
\<close>

unbundle bit_operations_syntax

section \<open>TSRequest on the wire\<close>

definition fits :: "u8 list \<Rightarrow> bool" where
  "fits bs \<longleftrightarrow> int (length bs) + 10 < usize_bound"

lemma fits_parts:
  "fits (tagged n content) \<Longrightarrow> fits content" "fits (octet_string content) \<Longrightarrow> fits content"
  "fits (der_sequence content) \<Longrightarrow> fits content"
  by (simp_all add: fits_def tagged_def octet_string_def der_sequence_def tlv_def)

lemma expect_in_tlv: "fits content \<Longrightarrow> expect_in tag (tlv tag content) = Inr content"
  using expect_tlv [of "[]" content tag "[]"] by (simp add: expect_in_def fits_def reader_new_def)

lemma expect_in_wrapped:
  "fits (octet_string x) \<Longrightarrow> expect_in TAG_OCTET_STRING (octet_string x) = Inr x"
  "fits (der_sequence x) \<Longrightarrow> expect_in TAG_SEQUENCE (der_sequence x) = Inr x"
  using fits_parts expect_in_tlv [of x] by (metis octet_string_def, metis der_sequence_def)

lemma expect_in_integer: "expect_in TAG_INTEGER (der_integer v) = Inr (integer_content v)"
  unfolding der_integer_def using length_integer_content [of v]
  by (intro expect_in_tlv) (simp add: fits_def usize_bound_def)

lemma decode_token_encoded:
  assumes "fits (der_sequence (der_sequence (tagged 0 (octet_string token))))"
  shows "decode_token (der_sequence (der_sequence (tagged 0 (octet_string token)))) = Inr token"
proof -
  let ?tok = "octet_string token" and ?entry = "tagged 0 (octet_string token)"
  have f: "fits (der_sequence ?entry)" "fits ?entry" "fits ?tok" "fits token"
    using assms fits_parts by blast+
  have "expect TAG_SEQUENCE (reader_new (der_sequence ?entry))
      = Inr (?entry, \<lparr>rd_bytes = der_sequence ?entry, rd_position = length (der_sequence ?entry)\<rparr>)"
    using expect_tlv [of "[]" ?entry TAG_SEQUENCE "[]"] f(2) by (simp add: fits_def reader_new_def der_sequence_def)
  moreover have "expect_in (context_tag 0) ?entry = Inr ?tok"
    using expect_in_tlv [OF f(3)] by (simp add: tagged_def)
  ultimately show ?thesis
    using f assms by (simp add: decode_token_def expect_in_wrapped reader_is_empty_def)
qed

lemma decode_tagged:
  assumes "fits (pre @ tagged n content @ rest)"
  shows "decode_fields \<lparr>rd_bytes = pre @ tagged n content @ rest, rd_position = length pre\<rparr> acc
    = and_then (decode_field (context_tag n) content acc)
        (decode_fields \<lparr>rd_bytes = (pre @ tagged n content) @ rest, rd_position = length (pre @ tagged n content)\<rparr>)"
proof -
  have "int (length pre + 10) + int (length content) < usize_bound"
    using assms by (simp add: fits_def tagged_def tlv_def)
  from read_any_tlv [OF this, of "context_tag n" rest] show ?thesis
    by (subst decode_fields.simps) (simp add: reader_is_empty_def tagged_def tlv_def)
qed

definition wire_option :: "u8 \<Rightarrow> ('a \<Rightarrow> u8 list) \<Rightarrow> 'a option \<Rightarrow> u8 list" where
  "wire_option n f v = (case v of None \<Rightarrow> [] | Some x \<Rightarrow> tagged n (f x))"

lemma decode_option:
  assumes "fits (pre @ wire_option n f v @ rest)"
    and "\<And>x. v = Some x \<Longrightarrow> fits (f x) \<Longrightarrow> decode_field (context_tag n) (f x) acc = Inr (g x)"
  shows "decode_fields \<lparr>rd_bytes = pre @ wire_option n f v @ rest, rd_position = length pre\<rparr> acc
    = decode_fields \<lparr>rd_bytes = (pre @ wire_option n f v) @ rest, rd_position = length (pre @ wire_option n f v)\<rparr>
        (case v of None \<Rightarrow> acc | Some x \<Rightarrow> g x)"
proof (cases v)
  case None
  then show ?thesis by (simp add: wire_option_def)
next
  case (Some x)
  then have "fits (tagged n (f x))" using assms(1) by (simp add: wire_option_def fits_def)
  then have "decode_field (context_tag n) (f x) acc = Inr (g x)" using assms(2) [OF Some] fits_parts(1) by blast
  then show ?thesis using decode_tagged [of pre n "f x" rest acc] assms(1) Some by (simp add: wire_option_def)
qed

lemma context_tags:
  "context_tag 0 = 0xA0" "context_tag 1 = 0xA1" "context_tag 2 = 0xA2" "context_tag 3 = 0xA3"
  "context_tag 4 = 0xA4" "context_tag 5 = 0xA5"
  by (simp_all add: context_tag_def)

lemma decode_fields_empty: "length bs \<le> n \<Longrightarrow> decode_fields \<lparr>rd_bytes = bs, rd_position = n\<rparr> acc = Inr acc"
  by (subst decode_fields.simps) (simp add: reader_is_empty_def)

lemma ts_encode_parts:
  "ts_encode r = der_sequence (wire_option 0 der_integer (Some (ts_version r))
     @ wire_option 1 (\<lambda>t. der_sequence (der_sequence (tagged 0 (octet_string t)))) (ts_nego_token r)
     @ wire_option 2 octet_string (ts_auth_info r)
     @ wire_option 3 octet_string (ts_pub_key_auth r)
     @ wire_option 5 octet_string (ts_client_nonce r))"
  by (simp add: ts_encode_def wire_option_def)

lemma ts_decode_encode:
  assumes "fits (ts_encode r)" and "ts_error_code r = None"
  shows "ts_decode (ts_encode r) = Inr r"
proof -
  let ?v = "wire_option 0 der_integer (Some (ts_version r))"
  let ?t = "wire_option 1 (\<lambda>t. der_sequence (der_sequence (tagged 0 (octet_string t)))) (ts_nego_token r)"
  let ?a = "wire_option 2 octet_string (ts_auth_info r)"
  let ?p = "wire_option 3 octet_string (ts_pub_key_auth r)"
  let ?n = "wire_option 5 octet_string (ts_client_nonce r)"
  let ?body = "?v @ ?t @ ?a @ ?p @ ?n"
  have f: "fits ?body" using assms(1) fits_parts(3) unfolding ts_encode_parts by blast
  let ?r1 = "ts_empty\<lparr>ts_version := ts_version r\<rparr>"
  let ?r2 = "?r1\<lparr>ts_nego_token := ts_nego_token r\<rparr>"
  let ?r3 = "?r2\<lparr>ts_auth_info := ts_auth_info r\<rparr>"
  let ?r4 = "?r3\<lparr>ts_pub_key_auth := ts_pub_key_auth r\<rparr>"
  let ?r5 = "?r4\<lparr>ts_client_nonce := ts_client_nonce r\<rparr>"
  note steps = decode_field_def context_tags expect_in_wrapped expect_in_integer read_integer_content decode_token_encoded
  have "decode_fields (reader_new ?body) (ts_empty, False)
      = decode_fields \<lparr>rd_bytes = ?v @ ?t @ ?a @ ?p @ ?n, rd_position = length ?v\<rparr> (?r1, True)"
    using decode_option [of "[]" 0 der_integer "Some (ts_version r)" "?t @ ?a @ ?p @ ?n" "(ts_empty, False)"
        "\<lambda>v. (ts_empty\<lparr>ts_version := v\<rparr>, True)"] f
    by (simp add: reader_new_def steps)
  also have "\<dots> = decode_fields \<lparr>rd_bytes = (?v @ ?t) @ ?a @ ?p @ ?n, rd_position = length (?v @ ?t)\<rparr> (?r2, True)"
    using decode_option [of ?v 1 "\<lambda>t. der_sequence (der_sequence (tagged 0 (octet_string t)))" "ts_nego_token r"
        "?a @ ?p @ ?n" "(?r1, True)" "\<lambda>x. (?r1\<lparr>ts_nego_token := Some x\<rparr>, True)"] f
    by (cases "ts_nego_token r") (simp_all add: steps ts_empty_def)
  also have "\<dots> = decode_fields \<lparr>rd_bytes = (?v @ ?t @ ?a) @ ?p @ ?n, rd_position = length (?v @ ?t @ ?a)\<rparr> (?r3, True)"
    using decode_option [of "?v @ ?t" 2 octet_string "ts_auth_info r"
        "?p @ ?n" "(?r2, True)" "\<lambda>x. (?r2\<lparr>ts_auth_info := Some x\<rparr>, True)"] f
    by (cases "ts_auth_info r") (simp_all add: steps ts_empty_def)
  also have "\<dots> = decode_fields \<lparr>rd_bytes = (?v @ ?t @ ?a @ ?p) @ ?n, rd_position = length (?v @ ?t @ ?a @ ?p)\<rparr> (?r4, True)"
    using decode_option [of "?v @ ?t @ ?a" 3 octet_string "ts_pub_key_auth r"
        "?n" "(?r3, True)" "\<lambda>x. (?r3\<lparr>ts_pub_key_auth := Some x\<rparr>, True)"] f
    by (cases "ts_pub_key_auth r") (simp_all add: steps ts_empty_def)
  also have "\<dots> = decode_fields \<lparr>rd_bytes = ?body, rd_position = length ?body\<rparr> (?r5, True)"
    using decode_option [of "?v @ ?t @ ?a @ ?p" 5 octet_string "ts_client_nonce r"
        "[]" "(?r4, True)" "\<lambda>x. (?r4\<lparr>ts_client_nonce := Some x\<rparr>, True)"] f
    by (cases "ts_client_nonce r") (simp_all add: steps ts_empty_def)
  also have "\<dots> = Inr (?r5, True)" by (simp add: decode_fields_empty)
  also have "?r5 = r" using assms(2) by (simp add: ts_empty_def)
  finally have "decode_fields (reader_new ?body) (ts_empty, False) = Inr (r, True)" .
  moreover have "expect_in TAG_SEQUENCE (ts_encode r) = Inr ?body"
    using expect_in_wrapped(2) assms(1) unfolding ts_encode_parts .
  ultimately show ?thesis unfolding ts_decode_def by simp
qed

lemma le_int_leading:
  assumes "bs \<noteq> []" and "hd bs \<noteq> 0"
  shows "256 ^ (length bs - 1) \<le> le_int (rev bs)"
proof -
  obtain b cs where bs: "bs = b # cs" using assms(1) by (cases bs) auto
  have "uint b \<noteq> 0" using assms(2) by (simp add: bs unsigned_eq_0_iff)
  then have "1 \<le> uint b" using uint_u8_range(1) [of b] by linarith
  then have "256 ^ length cs \<le> 256 ^ length cs * uint b" using mult_left_mono [of 1 "uint b" "256 ^ length cs"] by simp
  moreover have "le_int (rev bs) = le_int (rev cs) + 256 ^ length cs * uint b" by (simp add: bs le_int_append)
  moreover have "0 \<le> le_int (rev cs)" by simp
  ultimately have "256 ^ length cs \<le> le_int (rev bs)" by linarith
  then show ?thesis by (simp add: bs)
qed

lemma der_length_short_long:
  assumes "int n < 2 ^ 32"
  obtains (short) "n < 0x80" "der_length n = [of_nat n]"
  | (long) bs where "der_length n = (0x80 OR of_nat (length bs)) # bs" "0 < length bs" "length bs \<le> 4"
      "unat (foldl shift_in (0 :: u64) bs) = n"
proof (cases "n < 0x80")
  case True
  then show thesis by (intro short) (simp_all add: der_length_def)
next
  case False
  have "int n < usize_bound" using assms by (simp add: usize_bound_def)
  with False obtain bs where bs: "der_length n = (0x80 OR of_nat (length bs)) # bs" "0 < length bs" "length bs \<le> 8"
    "le_int (rev bs) = int n" "hd bs \<noteq> 0"
    by (auto intro: der_length_long [of n])
  have four: "length bs \<le> 4"
  proof (rule ccontr)
    assume "\<not> length bs \<le> 4"
    then have "(256 :: int) ^ 4 \<le> 256 ^ (length bs - 1)" by (intro power_increasing) auto
    also have "\<dots> \<le> int n" using le_int_leading [of bs] bs(2,4,5) by simp
    finally show False using assms by simp
  qed
  have "(256 :: int) ^ length bs \<le> 256 ^ 8" using bs(3) by (intro power_increasing) auto
  then have "uint (foldl shift_in (0 :: u64) bs) = int n"
    using foldl_shift_in_0 [of bs, where ?'a = 64] bs(4) by simp
  then have "unat (foldl shift_in (0 :: u64) bs) = n" by (simp add: unat_eq_nat_uint)
  with four bs show thesis by (intro long)
qed

lemma ts_request_length_prefix:
  assumes "int (length body) < 2 ^ 32"
  defines "len \<equiv> length (der_sequence body)"
  shows "ts_request_length (take k (der_sequence body @ after)) \<in> {Inr None, Inr (Some len)}"
    "6 \<le> k \<Longrightarrow> ts_request_length (take k (der_sequence body @ after)) = Inr (Some len)"
proof -
  let ?n = "length body"
  let ?s = "take k (der_sequence body @ after)"
  have "ts_request_length ?s \<in> {Inr None, Inr (Some len)} \<and> (6 \<le> k \<longrightarrow> ts_request_length ?s = Inr (Some len))"
    using assms(1)
  proof (cases rule: der_length_short_long)
    case short
    have u: "unat (of_nat ?n :: u8) = ?n" using short(1) by (simp add: unat_of_nat take_bit_nat_eq_self)
    then have "(of_nat ?n :: u8) < 0x80" using short(1) by (simp add: word_less_nat_alt)
    then show ?thesis using u
      by (cases k; cases "k - 1")
        (auto simp: ts_request_length_def len_def der_sequence_def tlv_def short(2) get_at_def)
  next
    case (long bs)
    note first = first_octet [of "length bs"]
    have len: "len = 2 + length bs + ?n" by (simp add: len_def der_sequence_def tlv_def long(1))
    have s: "?s = take k (TAG_SEQUENCE # (0x80 OR of_nat (length bs)) # bs @ body @ after)"
      by (simp add: der_sequence_def tlv_def long(1))
    consider "k = 0" | "k = 1" | "2 \<le> k" by linarith
    then show ?thesis
    proof cases
      case 3
      then obtain j where k: "k = Suc (Suc j)" by (metis add_2_eq_Suc le_Suc_ex)
      have part: "get_slice 2 (2 + length bs) ?s = (if length bs \<le> j then Some bs else None)"
        unfolding s unfolding k get_slice_def by simp
      have "get_at 0 ?s = Some TAG_SEQUENCE" "get_at 1 ?s = Some (0x80 OR of_nat (length bs))"
        unfolding s unfolding k get_at_def by simp_all
      then show ?thesis using part first long(2,3,4) by (simp add: ts_request_length_def Let_def len k)
    qed (unfold s, simp_all add: ts_request_length_def get_at_def)
  qed
  then show "ts_request_length ?s \<in> {Inr None, Inr (Some len)}" "6 \<le> k \<Longrightarrow> ts_request_length ?s = Inr (Some len)"
    by blast+
qed

text \<open>
  C40. A \<open>TSRequest\<close> survives the stream: however much of it has arrived and whatever follows
  it, the framing either asks for more or names exactly its length, six bytes always being
  enough to tell; and those bytes decode to the request that was encoded.
\<close>

theorem ts_request_survives_the_stream:
  assumes "int (length (ts_encode r)) < 2 ^ 32" and "ts_error_code r = None"
  shows "ts_request_length (take k (ts_encode r @ after)) \<in> {Inr None, Inr (Some (length (ts_encode r)))}
    \<and> (6 \<le> k \<longrightarrow> ts_request_length (take k (ts_encode r @ after)) = Inr (Some (length (ts_encode r))))
    \<and> ts_decode (take (length (ts_encode r)) (ts_encode r @ after)) = Inr r"
proof -
  obtain body where body: "ts_encode r = der_sequence body" by (simp add: ts_encode_def)
  then have "int (length body) < 2 ^ 32" using assms(1) by (simp add: der_sequence_def tlv_def)
  note framed = ts_request_length_prefix [OF this, of k after]
  have "fits (ts_encode r)" using assms(1) by (simp add: fits_def usize_bound_def)
  then show ?thesis using framed ts_decode_encode [OF _ assms(2)] by (simp add: body)
qed

definition sample_request :: ts_request where
  "sample_request = ts_empty\<lparr>ts_nego_token := Some [1, 2, 3], ts_client_nonce := Some (replicate 32 9)\<rparr>"

theorem ts_request_survives_the_stream_witness:
  "ts_request_length (take 6 (ts_encode sample_request @ [0, 0])) = Inr (Some 56)
   \<and> ts_decode (take 56 (ts_encode sample_request @ [0, 0])) = Inr sample_request"
proof -
  have "length (ts_encode sample_request) = 56" by code_simp
  moreover have "ts_error_code sample_request = None" by (simp add: sample_request_def ts_empty_def)
  ultimately show ?thesis using ts_request_survives_the_stream [of sample_request 6 "[0, 0]"] by simp
qed

section \<open>The exchange\<close>

type_synonym server_message = "u8 list \<times> u8 list \<times> u8 list \<times> u64"

definition exchange ::
  "primitives \<Rightarrow> server_message \<Rightarrow> credssp_client \<Rightarrow> (protocol_error, credssp_reply) result \<times> credssp_client" where
  "exchange p = (\<lambda>(input, client_challenge, session_key, now) c.
     credssp_step p input client_challenge session_key now c)"

text \<open>What an exchange never changes, and when it has a sealing state.\<close>

definition exchange_inv :: "credssp_client \<Rightarrow> credssp_client \<Rightarrow> bool" where
  "exchange_inv c0 c \<longleftrightarrow>
     cc_public_key c = cc_public_key c0 \<and> cc_nonce c = cc_nonce c0 \<and> cc_peer c = cc_peer c0
     \<and> cc_domain c = cc_domain c0 \<and> cc_username c = cc_username c0 \<and> cc_password c = cc_password c0
     \<and> cc_negotiated_version c \<le> cc_negotiated_version c0
     \<and> (cc_state c = Challenge \<longleftrightarrow> cc_security c = None)"

lemma on_challenge_inv:
  "exchange_inv c0 c \<Longrightarrow> cc_state c = Challenge \<Longrightarrow> exchange_inv c0 (snd (on_challenge p request ch sk now c))"
  by (auto simp: on_challenge_def exchange_inv_def Let_def split: option.splits sum.splits prod.splits)

lemma on_public_key_inv:
  "exchange_inv c0 c \<Longrightarrow> cc_state c = PublicKeyVerification \<Longrightarrow> exchange_inv c0 (snd (on_public_key p request c))"
  by (auto simp: on_public_key_def exchange_inv_def Let_def split: option.splits sum.splits prod.splits)

lemma exchange_keeps_inv:
  assumes "exchange_inv c0 c"
  shows "exchange_inv c0 (snd (exchange p op c))"
proof -
  obtain input ch sk now where op: "op = (input, ch, sk, now)" by (cases op)
  show ?thesis
  proof (cases "ts_decode input")
    case (Inl e)
    then show ?thesis using assms by (simp add: exchange_def op credssp_step_def)
  next
    case (Inr request)
    let ?c = "c\<lparr>cc_negotiated_version := min (cc_negotiated_version c) (ts_version request)\<rparr>"
    have inv: "exchange_inv c0 ?c" using assms by (auto simp: exchange_inv_def intro: min.coboundedI1)
    then show ?thesis
      using on_challenge_inv [OF inv] on_public_key_inv [OF inv]
      by (cases "cc_state c") (simp_all add: exchange_def op credssp_step_def Inr Let_def)
  qed
qed

interpretation credssp: guarded_machine "exchange p" "\<lambda>_ _. True" "exchange_inv c0" for p c0
  by unfold_locales (rule exchange_keeps_inv)

lemma run_allowed_anything: "run_allowed step (\<lambda>_ _. True) ops s"
  by (induction ops arbitrary: s) auto

lemma done_is_final:
  assumes "cc_state c = Done"
  shows "\<not> is_ok (fst (exchange p op c)) \<and> cc_state (snd (exchange p op c)) = Done"
  using assms
  by (auto simp: exchange_def credssp_step_def Let_def split: prod.splits sum.splits option.splits if_splits)

lemma done_stays: "cc_state c = Done \<Longrightarrow> cc_state (run_machine (exchange p) ops c) = Done"
  by (induction ops arbitrary: c) (simp_all add: done_is_final)

lemma expected_proof_cong:
  "cc_public_key c = cc_public_key d \<Longrightarrow> cc_nonce c = cc_nonce d \<Longrightarrow> cc_negotiated_version c = cc_negotiated_version d
    \<Longrightarrow> expected_proof p c = expected_proof p d"
  by (simp add: expected_proof_def)

lemma finish_inversion:
  assumes "credssp_step p input ch sk now c = (Inr (SendAndFinish out), c')"
  obtains request sealed s s1 s2 info where
    "ts_decode input = Inr request" "ts_error_code request \<in> {None, Some 0}" "cc_state c = PublicKeyVerification"
    "ts_pub_key_auth request = Some sealed" "cc_security c = Some s"
    "security_unseal p sealed s = (Inr (expected_proof p
        (c\<lparr>cc_negotiated_version := min (cc_negotiated_version c) (ts_version request)\<rparr>)), s1)"
    "security_seal p (credentials_blob c) s1 = (info, s2)"
    "out = ts_encode (ts_empty\<lparr>ts_auth_info := Some info\<rparr>)" "cc_state c' = Done"
proof -
  obtain request where r: "ts_decode input = Inr request"
    using assms by (cases "ts_decode input") (simp_all add: credssp_step_def)
  let ?c = "c\<lparr>cc_negotiated_version := min (cc_negotiated_version c) (ts_version request)\<rparr>"
  have no_error: "ts_error_code request \<in> {None, Some 0}"
    using assms by (auto simp: credssp_step_def r Let_def split: option.splits if_splits)
  then have "on_public_key p request ?c = (Inr (SendAndFinish out), c')" and st: "cc_state c = PublicKeyVerification"
    using assms
    by (cases "cc_state c"; auto simp: credssp_step_def r Let_def on_challenge_def split: option.splits sum.splits prod.splits)+
  then show thesis
    using that [OF r no_error st]
    by (auto simp: on_public_key_def Let_def credentials_blob_def ts_empty_def expected_proof_def
        split: option.splits sum.splits prod.splits if_splits)
qed

lemma start_inv: "exchange_inv (snd (credssp_start (credssp_new p user domain ws spn pw pk nonce)))
    (snd (credssp_start (credssp_new p user domain ws spn pw pk nonce)))"
  by (simp add: exchange_inv_def credssp_start_def credssp_new_def split: prod.splits)

text \<open>What the client asks the server to prove: that it saw the same certificate key.\<close>

definition server_proof :: "primitives \<Rightarrow> u32 \<Rightarrow> u8 list \<Rightarrow> u8 list \<Rightarrow> u8 list" where
  "server_proof p version nonce public_key =
     (if version \<ge> NONCE_BINDING_VERSION then binding_hash p SERVER_BINDING_LABEL nonce public_key
      else case public_key of [] \<Rightarrow> [] | b # rest \<Rightarrow> (b + 1) # rest)"


section \<open>An honest server\<close>

lemma far_end_far_end [simp]: "far_end (far_end s) = s"
  by (simp add: far_end_def)

lemma length_tlv: "length (tlv tag content) \<le> length content + 10"
proof -
  have "length (der_length n) \<le> 9" for n
  proof -
    have "length (drop i (u64_to_be w)) \<le> 8" for i w by simp
    then show ?thesis unfolding der_length_def Let_def by (simp del: length_drop)
  qed
  then show ?thesis by (simp add: tlv_def)
qed

lemma length_wraps:
  "length (tagged n x) \<le> length x + 10" "length (octet_string x) \<le> length x + 10"
  "length (der_sequence x) \<le> length x + 10"
  by (simp_all add: tagged_def octet_string_def der_sequence_def length_tlv)

lemma length_wire_octets: "length (wire_option n octet_string v) \<le> (case v of None \<Rightarrow> 0 | Some x \<Rightarrow> length x + 20)"
  using order_trans [OF length_wraps(1) add_right_mono [OF length_wraps(2)], of n]
  by (simp add: wire_option_def add.commute split: option.splits)

lemma length_wire_token:
  "length (wire_option n (\<lambda>t. der_sequence (der_sequence (tagged m (octet_string t)))) v)
    \<le> (case v of None \<Rightarrow> 0 | Some x \<Rightarrow> length x + 50)"
proof (cases v)
  case (Some x)
  have "length (tagged m (octet_string x)) \<le> length x + 20"
    using length_wraps(1) [of m "octet_string x"] length_wraps(2) [of x] by linarith
  then show ?thesis
    using length_wraps(1) [of n "der_sequence (der_sequence (tagged m (octet_string x)))"]
      length_wraps(3) [of "der_sequence (tagged m (octet_string x))"] length_wraps(3) [of "tagged m (octet_string x)"]
    by (simp add: wire_option_def Some)
qed (simp add: wire_option_def)

lemma length_ts_encode:
  "length (ts_encode r) \<le> 200 + (case ts_nego_token r of None \<Rightarrow> 0 | Some x \<Rightarrow> length x)
     + (case ts_auth_info r of None \<Rightarrow> 0 | Some x \<Rightarrow> length x)
     + (case ts_pub_key_auth r of None \<Rightarrow> 0 | Some x \<Rightarrow> length x)
     + (case ts_client_nonce r of None \<Rightarrow> 0 | Some x \<Rightarrow> length x)"
proof -
  have v: "length (wire_option 0 der_integer (Some w)) \<le> 25" for w
    using length_wraps(1) [of 0 "der_integer w"] length_tlv [of TAG_INTEGER "integer_content w"] length_integer_content [of w]
    by (simp add: wire_option_def der_integer_def)
  show ?thesis
    using length_wraps(3) v [of "ts_version r"] length_wire_token [of 1 0 "ts_nego_token r"]
      length_wire_octets [of 2 "ts_auth_info r"] length_wire_octets [of 3 "ts_pub_key_auth r"]
      length_wire_octets [of 5 "ts_client_nonce r"]
    unfolding ts_encode_parts by (auto split: option.splits intro!: order_trans [OF length_wraps(3)])
qed

lemma small_fits: "int (length (ts_encode r)) < 2 ^ 40 \<Longrightarrow> fits (ts_encode r)"
  by (simp add: fits_def usize_bound_def)

lemma length_security_seal:
  assumes "digest_sizes p" and "security_seal p m s = (out, s')"
  shows "length out = length m + 16"
proof -
  obtain sealed h1 sig h2 where "rc4_apply m (ns_client_seal s) = (sealed, h1)"
    "ntlm_sign p h1 (ns_client_sign s) (ns_client_seq s) m (ns_key_exchange s) = (sig, h2)" "out = sig @ sealed"
    using assms(2) by (auto simp: security_seal_def split: prod.splits)
  then show ?thesis
    using length_ntlm_sign [OF assms(1)] length_rc4_apply [of m "ns_client_seal s"] by (simp add: SIGNATURE_BYTES_def)
qed

lemma ts_empty_simps [simp]:
  "ts_version ts_empty = CLIENT_VERSION" "ts_nego_token ts_empty = None" "ts_auth_info ts_empty = None"
  "ts_pub_key_auth ts_empty = None" "ts_error_code ts_empty = None" "ts_client_nonce ts_empty = None"
  "ts_empty\<lparr>ts_version := CLIENT_VERSION\<rparr> = ts_empty"
  by (simp_all add: ts_empty_def)

lemma decode_server_message:
  assumes "r = ts_empty\<lparr>ts_version := v, ts_nego_token := t, ts_pub_key_auth := a\<rparr>"
    and "\<And>x. t = Some x \<Longrightarrow> int (length x) < 2 ^ 33" and "\<And>x. a = Some x \<Longrightarrow> int (length x) < 2 ^ 33"
  shows "ts_decode (ts_encode r) = Inr r"
proof (rule ts_decode_encode)
  have "int (length (ts_encode r)) < 2 ^ 40"
    using length_ts_encode [of r] assms by (auto split: option.splits)
  then show "fits (ts_encode r)" by (rule small_fits)
qed (simp add: assms(1))

lemma authenticate_total:
  "challenge_parse challenge = Inr chm \<Longrightarrow> \<exists>auth s. ntlm_authenticate p c challenge cc sk now = Inr (auth, s)"
  by (simp add: ntlm_authenticate_def Let_def case_prod_unfold)

lemma challenge_answered:
  assumes "cc_state c = Challenge" and "cc_negotiated_version c = CLIENT_VERSION"
    and "challenge_parse challenge = Inr chm" and "int (length challenge) < 2 ^ 32"
  obtains auth s0 sealed s n where
    "exchange p (ts_encode (ts_empty\<lparr>ts_version := v, ts_nego_token := Some challenge\<rparr>), client_challenge, sk, now) c
      = (Inr (SendAndContinue (ts_encode (ts_empty\<lparr>ts_nego_token := Some auth, ts_pub_key_auth := Some sealed, ts_client_nonce := n\<rparr>))),
         c\<lparr>cc_negotiated_version := min CLIENT_VERSION v, cc_security := Some s, cc_state := PublicKeyVerification\<rparr>)"
    "security_seal p (if min CLIENT_VERSION v \<ge> NONCE_BINDING_VERSION
       then binding_hash p CLIENT_BINDING_LABEL (cc_nonce c) (cc_public_key c) else cc_public_key c) s0 = (sealed, s)"
    "ntlm_authenticate p (cc_ntlm c) challenge client_challenge sk now = Inr (auth, s0)"
proof -
  let ?r = "ts_empty\<lparr>ts_version := v, ts_nego_token := Some challenge\<rparr>"
  have dec: "ts_decode (ts_encode ?r) = Inr ?r"
    using assms(4) by (intro decode_server_message [where v = v and t = "Some challenge" and a = None]) (auto simp: ts_empty_def)
  obtain auth s0 where auth: "ntlm_authenticate p (cc_ntlm c) challenge client_challenge sk now = Inr (auth, s0)"
    using authenticate_total [OF assms(3)] by blast
  let ?m = "if min CLIENT_VERSION v \<ge> NONCE_BINDING_VERSION
       then binding_hash p CLIENT_BINDING_LABEL (cc_nonce c) (cc_public_key c) else cc_public_key c"
  obtain sealed s where seal: "security_seal p ?m s0 = (sealed, s)" by (cases "security_seal p ?m s0") auto
  show thesis
    using that [OF _ seal auth] assms(1,2) seal
    by (simp add: exchange_def credssp_step_def dec on_challenge_def auth Let_def cong: if_cong)
qed

lemma proof_accepted:
  assumes "cc_state c = PublicKeyVerification" and "cc_security c = Some s"
    and "int (length sealed) < 2 ^ 33"
    and "security_unseal p sealed s = (Inr (server_proof p (min (cc_negotiated_version c) v) (cc_nonce c) (cc_public_key c)), s1)"
    and "security_seal p (credentials_blob c) s1 = (info, s2)"
  obtains c2 where "exchange p (ts_encode (ts_empty\<lparr>ts_version := v, ts_pub_key_auth := Some sealed\<rparr>), ch, sk, now) c
      = (Inr (SendAndFinish (ts_encode (ts_empty\<lparr>ts_auth_info := Some info\<rparr>))), c2)"
proof -
  let ?r = "ts_empty\<lparr>ts_version := v, ts_pub_key_auth := Some sealed\<rparr>"
  have dec: "ts_decode (ts_encode ?r) = Inr ?r"
    using assms(3) by (intro decode_server_message [where v = v and t = None and a = "Some sealed"]) (auto simp: ts_empty_def)
  let ?d = "c\<lparr>cc_negotiated_version := min (cc_negotiated_version c) v, cc_security := Some s1\<rparr>"
  have "expected_proof p ?d = server_proof p (min (cc_negotiated_version c) v) (cc_nonce c) (cc_public_key c)"
    "credentials_blob ?d = credentials_blob c"
    by (simp_all add: expected_proof_def server_proof_def credentials_blob_def)
  then show thesis
    using that assms(1,2,4,5)
    by (simp add: exchange_def credssp_step_def dec on_public_key_def Let_def)
qed

text \<open>
  C36. An honest server is served: for every well-formed challenge and every version the server
  claims, the client answers; a server that derived the same keys opens the client's assertion
  of the certificate key, and when it seals its own proof the client finishes, and what the
  server then opens is exactly the credentials, domain, user and password.
\<close>

theorem honest_server_is_served:
  fixes user domain ws spn :: rstring and pw pk nonce client_challenge sk challenge :: "u8 list"
    and p :: primitives and v :: u32 and now :: u64 and c0 :: credssp_client
  assumes "digest_sizes p" and "challenge_parse challenge = Inr chm"
    and "int (length challenge) < 2 ^ 32" and "int (length pk) < 2 ^ 32"
    and "int (length (credentials_blob (credssp_new p user domain ws spn pw pk nonce))) < 2 ^ 32"
  defines "c0 \<equiv> snd (credssp_start (credssp_new p user domain ws spn pw pk nonce))"
  shows "\<exists>auth s0 sealed1 server n c1.
      ntlm_authenticate p (cc_ntlm c0) challenge client_challenge sk now = Inr (auth, s0)
    \<and> exchange p (ts_encode (ts_empty\<lparr>ts_version := v, ts_nego_token := Some challenge\<rparr>), client_challenge, sk, now) c0
        = (Inr (SendAndContinue (ts_encode (ts_empty\<lparr>ts_nego_token := Some auth, ts_pub_key_auth := Some sealed1, ts_client_nonce := n\<rparr>))), c1)
    \<and> security_unseal p sealed1 (far_end s0)
        = (Inr (if min CLIENT_VERSION v \<ge> NONCE_BINDING_VERSION then binding_hash p CLIENT_BINDING_LABEL nonce pk else pk), server)
    \<and> (\<forall>sealed2 server2. security_seal p (server_proof p (min CLIENT_VERSION v) nonce pk) server = (sealed2, server2) \<longrightarrow>
        (\<exists>c2 info server3.
           exchange p (ts_encode (ts_empty\<lparr>ts_version := v, ts_pub_key_auth := Some sealed2\<rparr>), client_challenge, sk, now) c1
             = (Inr (SendAndFinish (ts_encode (ts_empty\<lparr>ts_auth_info := Some info\<rparr>))), c2)
           \<and> ts_decode (ts_encode (ts_empty\<lparr>ts_auth_info := Some info\<rparr>)) = Inr (ts_empty\<lparr>ts_auth_info := Some info\<rparr>)
           \<and> security_unseal p info server2
               = (Inr (credentials_blob (credssp_new p user domain ws spn pw pk nonce)), server3)))"
proof -
  let ?new = "credssp_new p user domain ws spn pw pk nonce"
  have start: "cc_state c0 = Challenge" "cc_negotiated_version c0 = CLIENT_VERSION" "cc_nonce c0 = nonce"
    "cc_public_key c0 = pk" "credentials_blob c0 = credentials_blob ?new"
    by (simp_all add: c0_def credssp_start_def credssp_new_def credentials_blob_def split: prod.splits)
  obtain auth s0 sealed s n where one:
    "exchange p (ts_encode (ts_empty\<lparr>ts_version := v, ts_nego_token := Some challenge\<rparr>), client_challenge, sk, now) c0
      = (Inr (SendAndContinue (ts_encode (ts_empty\<lparr>ts_nego_token := Some auth, ts_pub_key_auth := Some sealed, ts_client_nonce := n\<rparr>))),
         c0\<lparr>cc_negotiated_version := min CLIENT_VERSION v, cc_security := Some s, cc_state := PublicKeyVerification\<rparr>)"
    "security_seal p (if min CLIENT_VERSION v \<ge> NONCE_BINDING_VERSION
       then binding_hash p CLIENT_BINDING_LABEL nonce pk else pk) s0 = (sealed, s)"
    "ntlm_authenticate p (cc_ntlm c0) challenge client_challenge sk now = Inr (auth, s0)"
    by (rule challenge_answered [OF start(1,2) assms(2,3), where p = p and v = v and client_challenge = client_challenge
          and sk = sk and now = now, unfolded start(3,4)])
  let ?c1 = "c0\<lparr>cc_negotiated_version := min CLIENT_VERSION v, cc_security := Some s, cc_state := PublicKeyVerification\<rparr>"
  have two: "\<exists>c2 info server3.
      exchange p (ts_encode (ts_empty\<lparr>ts_version := v, ts_pub_key_auth := Some sealed2\<rparr>), client_challenge, sk, now) ?c1
        = (Inr (SendAndFinish (ts_encode (ts_empty\<lparr>ts_auth_info := Some info\<rparr>))), c2)
      \<and> ts_decode (ts_encode (ts_empty\<lparr>ts_auth_info := Some info\<rparr>)) = Inr (ts_empty\<lparr>ts_auth_info := Some info\<rparr>)
      \<and> security_unseal p info server2 = (Inr (credentials_blob ?new), server3)"
    if seal: "security_seal p (server_proof p (min CLIENT_VERSION v) nonce pk) (far_end s) = (sealed2, server2)"
    for sealed2 server2
  proof -
    have opened: "security_unseal p sealed2 s = (Inr (server_proof p (min CLIENT_VERSION v) nonce pk), far_end server2)"
      using unseal_seal [OF assms(1) seal] by simp
    obtain info s2 where info: "security_seal p (credentials_blob ?new) (far_end server2) = (info, s2)"
      by (cases "security_seal p (credentials_blob ?new) (far_end server2)") auto
    have "length (server_proof p (min CLIENT_VERSION v) nonce pk) \<le> 32 + length pk"
      using assms(1) by (simp add: server_proof_def binding_hash_def digest_sizes_def split: list.splits)
    then have "length sealed2 \<le> 48 + length pk" using length_security_seal [OF assms(1) seal] by simp
    then have "int (length sealed2) < 2 ^ 33" using assms(4) by simp
    have blob: "credentials_blob ?c1 = credentials_blob ?new" using start(5) by (simp add: credentials_blob_def)
    have "\<exists>c2. exchange p (ts_encode (ts_empty\<lparr>ts_version := v, ts_pub_key_auth := Some sealed2\<rparr>), client_challenge, sk, now) ?c1
        = (Inr (SendAndFinish (ts_encode (ts_empty\<lparr>ts_auth_info := Some info\<rparr>))), c2)"
    proof (rule proof_accepted)
      show "int (length sealed2) < 2 ^ 33" by fact
      show "security_unseal p sealed2 s = (Inr (server_proof p (min (cc_negotiated_version ?c1) v) (cc_nonce ?c1)
          (cc_public_key ?c1)), far_end server2)" using opened start(3,4) by simp
      show "security_seal p (credentials_blob ?c1) (far_end server2) = (info, s2)" unfolding blob by (rule info)
    qed (simp, simp, blast)
    moreover have "security_unseal p info server2 = (Inr (credentials_blob ?new), far_end s2)"
      using unseal_seal [OF assms(1) info] by simp
    moreover have "ts_decode (ts_encode (ts_empty\<lparr>ts_auth_info := Some info\<rparr>)) = Inr (ts_empty\<lparr>ts_auth_info := Some info\<rparr>)"
    proof (rule ts_decode_encode)
      have "int (length (ts_encode (ts_empty\<lparr>ts_auth_info := Some info\<rparr>))) < 2 ^ 40"
        using length_ts_encode [of "ts_empty\<lparr>ts_auth_info := Some info\<rparr>"] length_security_seal [OF assms(1) info] assms(5)
        by simp
      then show "fits (ts_encode (ts_empty\<lparr>ts_auth_info := Some info\<rparr>))" by (rule small_fits)
    qed simp
    ultimately show ?thesis by blast
  qed
  have "security_unseal p sealed (far_end s0) = (Inr (if min CLIENT_VERSION v \<ge> NONCE_BINDING_VERSION
       then binding_hash p CLIENT_BINDING_LABEL nonce pk else pk), far_end s)"
    by (rule unseal_seal [OF assms(1) one(2)])
  then show ?thesis using one(1,3) two by blast
qed

definition sample_new :: credssp_client where
  "sample_new = credssp_new sample_primitives [] [] [] [] [0xFF] [1, 2] (replicate 32 9)"

definition sample_first :: server_message where
  "sample_first = (ts_encode (ts_empty\<lparr>ts_version := 6, ts_nego_token := Some sample_challenge\<rparr>), replicate 8 1, replicate 16 2, 0)"

lemma sample_challenge_parses: "\<exists>chm. challenge_parse sample_challenge = Inr chm" "length sample_challenge = 48"
proof -
  have "challenge_parse sample_challenge = Inr \<lparr>cm_flags = 0, cm_server_challenge = replicate 8 7,
      cm_target_info = [], cm_av_pairs = [], cm_timestamp = None\<rparr>" by code_simp
  then show "\<exists>chm. challenge_parse sample_challenge = Inr chm" by blast
  show "length sample_challenge = 48" by (simp add: sample_challenge_def)
qed

lemma sample_blob: "int (length (credentials_blob sample_new)) < 2 ^ 32"
proof -
  have "wide_password [0xFF] = [0xFF]"
    by (simp add: wide_password_def from_utf8_def utf8_width_def utf8_scalar_def Let_def)
  then have b: "credentials_blob sample_new = der_sequence (tagged 0 (der_integer CRED_TYPE_PASSWORD)
      @ tagged 1 (octet_string (der_sequence (tagged 0 (octet_string []) @ tagged 1 (octet_string []) @ tagged 2 (octet_string [0xFF])))))"
    by (simp add: credentials_blob_def sample_new_def credssp_new_def utf16le_def encode_utf16_def Let_def)
  show ?thesis unfolding b by code_simp
qed

theorem honest_server_is_served_witness:
  "\<exists>out c1 sealed out2 c2.
     exchange sample_primitives sample_first (snd (credssp_start sample_new)) = (Inr (SendAndContinue out), c1)
     \<and> exchange sample_primitives (ts_encode (ts_empty\<lparr>ts_version := 6, ts_pub_key_auth := Some sealed\<rparr>),
         replicate 8 1, replicate 16 2, 0) c1 = (Inr (SendAndFinish out2), c2)"
proof -
  obtain chm where chm: "challenge_parse sample_challenge = Inr chm" using sample_challenge_parses(1) by blast
  obtain server c1 out where
    one: "exchange sample_primitives sample_first (snd (credssp_start sample_new)) = (Inr (SendAndContinue out), c1)"
    and two: "\<And>sealed2 server2. security_seal sample_primitives
        (server_proof sample_primitives (min CLIENT_VERSION 6) (replicate 32 9) [1, 2]) server = (sealed2, server2) \<Longrightarrow>
      \<exists>c2 info. exchange sample_primitives (ts_encode (ts_empty\<lparr>ts_version := 6, ts_pub_key_auth := Some sealed2\<rparr>),
          replicate 8 1, replicate 16 2, 0) c1 = (Inr (SendAndFinish (ts_encode (ts_empty\<lparr>ts_auth_info := Some info\<rparr>))), c2)"
    using honest_server_is_served [OF sample_digest_sizes chm, of "[1, 2]" "[]" "[]" "[]" "[]" "[0xFF]" "replicate 32 9"
        "replicate 8 1" "replicate 16 2" 0 6, folded sample_new_def sample_first_def] sample_blob
    unfolding sample_challenge_parses(2) by (simp, blast)
  obtain sealed2 server2 where "security_seal sample_primitives
      (server_proof sample_primitives (min CLIENT_VERSION 6) (replicate 32 9) [1, 2]) server = (sealed2, server2)"
    by fastforce
  from two [OF this] one show ?thesis by blast
qed

lemma sample_start:
  "cc_state (snd (credssp_start sample_new)) = Challenge"
  "cc_negotiated_version (snd (credssp_start sample_new)) = CLIENT_VERSION"
  by (simp_all add: sample_new_def credssp_start_def credssp_new_def split: prod.splits)

lemma sample_finishes:
  "\<exists>sealed out c2. exchange sample_primitives (ts_encode (ts_empty\<lparr>ts_version := 6, ts_pub_key_auth := Some sealed\<rparr>), [], [], 0)
     (run_machine (exchange sample_primitives) [sample_first] (snd (credssp_start sample_new))) = (Inr (SendAndFinish out), c2)"
proof -
  let ?p = sample_primitives and ?c0 = "snd (credssp_start sample_new)"
  obtain chm where chm: "challenge_parse sample_challenge = Inr chm" using sample_challenge_parses(1) by blast
  have size: "int (length sample_challenge) < 2 ^ 32" by (simp add: sample_challenge_parses(2))
  obtain out s where first: "exchange ?p sample_first ?c0 = (Inr (SendAndContinue out),
      ?c0\<lparr>cc_negotiated_version := min CLIENT_VERSION 6, cc_security := Some s, cc_state := PublicKeyVerification\<rparr>)"
    by (rule challenge_answered [OF sample_start chm size, of ?p 6 "replicate 8 1" "replicate 16 2" 0, folded sample_first_def])
      (rule that)
  let ?c1 = "?c0\<lparr>cc_negotiated_version := min CLIENT_VERSION 6, cc_security := Some s, cc_state := PublicKeyVerification\<rparr>"
  let ?m = "server_proof ?p (min (cc_negotiated_version ?c1) 6) (cc_nonce ?c1) (cc_public_key ?c1)"
  obtain sealed t where seal: "security_seal ?p ?m (far_end s) = (sealed, t)" by fastforce
  obtain info s2 where info: "security_seal ?p (credentials_blob ?c1) (far_end t) = (info, s2)" by fastforce
  have pk: "cc_public_key ?c1 = [1, 2]" by (simp add: sample_new_def credssp_start_def credssp_new_def split: prod.splits)
  have "length ?m \<le> 34" using sample_digest_sizes unfolding pk
    by (simp add: server_proof_def binding_hash_def digest_sizes_def)
  then have "length sealed \<le> 50" using length_security_seal [OF sample_digest_sizes seal] by simp
  then have small: "int (length sealed) < 2 ^ 33" by simp
  have opened: "security_unseal ?p sealed s = (Inr ?m, far_end t)" using unseal_seal [OF sample_digest_sizes seal] by simp
  obtain c2 where "exchange ?p (ts_encode (ts_empty\<lparr>ts_version := 6, ts_pub_key_auth := Some sealed\<rparr>), [], [], 0) ?c1
      = (Inr (SendAndFinish (ts_encode (ts_empty\<lparr>ts_auth_info := Some info\<rparr>))), c2)"
    by (rule proof_accepted [OF _ _ small opened info]) simp_all
  moreover have "run_machine (exchange ?p) [sample_first] ?c0 = ?c1" by (simp add: first)
  ultimately show ?thesis by metis
qed


section \<open>The password\<close>

text \<open>The replies to a sequence of messages, up to the one that ends the exchange.\<close>

primrec replies :: "primitives \<Rightarrow> server_message list \<Rightarrow> credssp_client \<Rightarrow> (protocol_error, credssp_reply) result list" where
  "replies p [] c = []"
| "replies p (op # ops) c = (case exchange p op c of (r, c') \<Rightarrow> r # replies p ops c')"

fun is_finish :: "(protocol_error, credssp_reply) result \<Rightarrow> bool" where
  "is_finish (Inr (SendAndFinish out)) = True"
| "is_finish r = False"

lemma expected_proof_password [simp]:
  "expected_proof p (c\<lparr>cc_password := w\<rparr>) = expected_proof p c"
  by (simp add: expected_proof_def)

lemma peer_impersonated_password [simp]:
  "peer_impersonated p (c\<lparr>cc_password := w\<rparr>) x y = peer_impersonated p c x y"
  by (simp add: peer_impersonated_def)

lemma on_challenge_password:
  "on_challenge p request ch sk now (c\<lparr>cc_password := w\<rparr>) =
     (case on_challenge p request ch sk now c of (r, c') \<Rightarrow> (r, c'\<lparr>cc_password := w\<rparr>))"
  by (simp add: on_challenge_def Let_def split: option.splits sum.splits prod.splits cong: if_cong)

lemma on_public_key_password:
  assumes "on_public_key p request c = (r, c')"
  obtains r' c'' where "on_public_key p request (c\<lparr>cc_password := w\<rparr>) = (r', c'')"
    "is_finish r' = is_finish r" "\<not> is_finish r \<Longrightarrow> r' = r \<and> c'' = c'\<lparr>cc_password := w\<rparr>"
proof -
  obtain r' c'' where "on_public_key p request (c\<lparr>cc_password := w\<rparr>) = (r', c'')"
    by (cases "on_public_key p request (c\<lparr>cc_password := w\<rparr>)")
  moreover from this assms have "is_finish r' = is_finish r" "\<not> is_finish r \<Longrightarrow> r' = r \<and> c'' = c'\<lparr>cc_password := w\<rparr>"
    by (auto simp: on_public_key_def Let_def expected_proof_def peer_impersonated_def
        split: option.splits sum.splits prod.splits if_splits)
  ultimately show thesis by (rule that)
qed

lemma exchange_password:
  assumes "exchange p op c = (r, c')"
  obtains r' c'' where "exchange p op (c\<lparr>cc_password := w\<rparr>) = (r', c'')"
    "is_finish r' = is_finish r" "\<not> is_finish r \<Longrightarrow> r' = r \<and> c'' = c'\<lparr>cc_password := w\<rparr>"
proof -
  obtain input ch sk now where op: "op = (input, ch, sk, now)" by (cases op)
  show thesis
  proof (cases "ts_decode input")
    case (Inl e)
    then show thesis using assms that by (auto simp: exchange_def op credssp_step_def)
  next
    case (Inr request)
    let ?d = "c\<lparr>cc_negotiated_version := min (cc_negotiated_version c) (ts_version request)\<rparr>"
    consider "cc_state c \<noteq> PublicKeyVerification \<or> (\<exists>k. ts_error_code request = Some k \<and> k \<noteq> 0)"
      | "cc_state c = PublicKeyVerification" "\<nexists>k. ts_error_code request = Some k \<and> k \<noteq> 0" by blast
    then show thesis
    proof cases
      case 1
      obtain r' c'' where other: "exchange p op (c\<lparr>cc_password := w\<rparr>) = (r', c'')"
        by (cases "exchange p op (c\<lparr>cc_password := w\<rparr>)")
      have "r' = r \<and> c'' = c'\<lparr>cc_password := w\<rparr>"
        using 1 assms other
      proof (cases "cc_state c = Challenge \<and> ts_error_code request \<in> {None, Some 0}")
        case True
        then have "exchange p op c = on_challenge p request ch sk now ?d"
          "exchange p op (c\<lparr>cc_password := w\<rparr>) = on_challenge p request ch sk now (?d\<lparr>cc_password := w\<rparr>)"
          by (auto simp: exchange_def op credssp_step_def Inr Let_def
              intro!: arg_cong [where f = "on_challenge p request ch sk now"])
        then show ?thesis using assms other by (auto simp: on_challenge_password split: prod.splits)
      qed (cases "cc_state c"; auto simp: exchange_def op credssp_step_def Inr Let_def split: option.splits if_splits)
      with other show thesis by (intro that) auto
    next
      case 2
      then have step: "exchange p op c = on_public_key p request ?d"
        "exchange p op (c\<lparr>cc_password := w\<rparr>) = on_public_key p request (?d\<lparr>cc_password := w\<rparr>)"
        by (auto simp: exchange_def op credssp_step_def Inr Let_def split: option.splits
            intro!: arg_cong [where f = "on_public_key p request"])
      show thesis
        using assms unfolding step(1) by (rule on_public_key_password [where w = w]) (rule that [unfolded step(2)])
    qed
  qed
qed

text \<open>
  C37. Until the exchange ends, nothing the client says depends on the password it holds: with
  any other password in its place, and the same NTLM response key, every reply to every
  sequence of messages is the same up to the final one, and the final one comes at the same
  message.
\<close>

theorem replies_do_not_reveal_the_password:
  "takeWhile (\<lambda>r. \<not> is_finish r) (replies p ops (c\<lparr>cc_password := w\<rparr>)) = takeWhile (\<lambda>r. \<not> is_finish r) (replies p ops c)
   \<and> (list_ex is_finish (replies p ops (c\<lparr>cc_password := w\<rparr>)) \<longleftrightarrow> list_ex is_finish (replies p ops c))"
proof (induction ops arbitrary: c)
  case Nil
  then show ?case by simp
next
  case (Cons op ops)
  obtain r c' where one: "exchange p op c = (r, c')" by (cases "exchange p op c")
  then obtain r' c'' where two: "exchange p op (c\<lparr>cc_password := w\<rparr>) = (r', c'')"
    "is_finish r' = is_finish r" "\<not> is_finish r \<Longrightarrow> r' = r \<and> c'' = c'\<lparr>cc_password := w\<rparr>"
    by (rule exchange_password [where w = w]) (rule that)
  then show ?case using Cons.IH [of c'] by (cases "is_finish r") (simp_all add: one)
qed

end
