(* ===== verification/Spec2Isabelle.thy ===== *)
theory Spec2Isabelle
  imports Refs_Props Sink_Props Randomart Vault_Trust Gateway Frame_Codec Credssp_Props
begin

text \<open>Root.\<close>

end
